theory Spec2Isabelle
  imports Complex_Main "HOL-Library.Monad_Syntax"
begin

section \<open>Numbers and arrays\<close>

text \<open>
  The package computes with IEEE doubles. They are idealised here as real (and complex)
  numbers: rounding is left out, every arithmetic operation is exact. What stays in the
  model is the one way exact arithmetic can still leave the finite numbers: a zero divisor
  (and the real square root of a negative number). numpy does not raise there, it goes on
  with \<open>nan\<close> or \<open>inf\<close>; the model writes \<open>None\<close> for such a value and lets it
  propagate, as \<open>nan\<close> does. (What numpy computes from an \<open>inf\<close> is not followed
  further there; \<open>0 / 0\<close> is \<open>nan\<close>, and every later operation keeps it. The scalar
  arithmetic of \<open>guess_smooth\<close>, which can return from \<open>inf\<close> to a finite number, is
  modelled with the special values themselves, see \<open>xfloat\<close>.)
\<close>

type_synonym float = "real option"

definition fdiv :: "'a::field \<Rightarrow> 'a \<Rightarrow> 'a option" where
  "fdiv x y = (if y = 0 then None else Some (x / y))"

definition fsqrt :: "real \<Rightarrow> float" where
  \<comment> \<open>\<open>np.sqrt\<close> on a real array: \<open>nan\<close> below zero\<close>
  "fsqrt x = (if x < 0 then None else Some (sqrt x))"

definition cpow_third :: "complex \<Rightarrow> complex" where
  \<comment> \<open>\<open>z ** (1 / 3)\<close> on a complex array: the principal cube root\<close>
  "cpow_third z = rcis (root 3 (cmod z)) (Arg z / 3)"

datatype error = IndexError | ValueError

text \<open>
  A value handed to or returned by \<open>kerr_detuning\<close>: a scalar (a Python float or a numpy
  scalar; its shape is \<open>()\<close>) or an \<open>ndarray\<close> with its shape and its elements in
  row-major order.
\<close>

datatype 'a pyval = Scalar 'a | NdArray "nat list" "'a list"

fun shape :: "'a pyval \<Rightarrow> nat list" where
  "shape (Scalar x) = []"
| "shape (NdArray sh xs) = sh"

text \<open>
  Boolean-mask indexing \<open>a[mask]\<close> and boolean-mask assignment \<open>a[mask] = values\<close>,
  which writes the values, in order, to the positions where the mask is true. (numpy raises
  when their number is not the number of those positions; in \<open>kerr_detuning\<close> the values
  are computed from \<open>b[mask]\<close>, \<open>c[mask]\<close>, ... element by element or by a reduction along
  the stacking axis, so the numbers agree.)
\<close>

fun mask_get :: "bool list \<Rightarrow> 'a list \<Rightarrow> 'a list" where
  "mask_get (m # ms) (x # xs) = (if m then x # mask_get ms xs else mask_get ms xs)"
| "mask_get ms xs = []"

fun mask_set :: "bool list \<Rightarrow> 'a list \<Rightarrow> 'a list \<Rightarrow> 'a list" where
  "mask_set (m # ms) (x # xs) vs =
     (if m then (case vs of [] \<Rightarrow> x # mask_set ms xs [] | v # vs' \<Rightarrow> v # mask_set ms xs vs')
      else x # mask_set ms xs vs)"
| "mask_set ms xs vs = xs"

definition any :: "bool list \<Rightarrow> bool" where
  "any ms = (True \<in> set ms)"

text \<open>
  \<open>choose(np.vstack(rows), axis=0)\<close>: the caller's reduction is applied along axis 0, that
  is to each column of the stacked candidate rows. The parameter \<open>choose\<close> (written
  \<open>chooser\<close> here, \<open>choose\<close> being the binomial coefficient's name) is modelled as
  the reduction of one column.
\<close>

definition axis0 :: "('a list \<Rightarrow> 'b) \<Rightarrow> 'a list list \<Rightarrow> 'b list" where
  "axis0 chooser rows =
     (case rows of [] \<Rightarrow> []
      | r # rs \<Rightarrow> map (\<lambda>j. chooser (map (\<lambda>row. row ! j) rows)) [0..<length r])"

definition fmin :: "float \<Rightarrow> float \<Rightarrow> float" where
  "fmin a b = (case (a, b) of (Some x, Some y) \<Rightarrow> Some (min x y) | _ \<Rightarrow> None)"

definition fmax :: "float \<Rightarrow> float \<Rightarrow> float" where
  "fmax a b = (case (a, b) of (Some x, Some y) \<Rightarrow> Some (max x y) | _ \<Rightarrow> None)"

fun np_min :: "float list \<Rightarrow> float" where
  \<comment> \<open>\<open>np.min\<close> along the stacking axis; a \<open>nan\<close> candidate makes the minimum \<open>nan\<close>\<close>
  "np_min [] = None"
| "np_min (x # xs) = foldl fmin x xs"

fun np_max :: "float list \<Rightarrow> float" where
  "np_max [] = None"
| "np_max (x # xs) = foldl fmax x xs"

section \<open>nonlinear.py\<close>

subsection \<open>The element-wise expressions of \<open>kerr_detuning\<close>\<close>

definition cc_one_real_at :: "real \<Rightarrow> real \<Rightarrow> float" where
  \<comment> \<open>\<open>np.cbrt((delta1 + np.sqrt(delta1 ** 2 - 4 * delta0 ** 3)) / 2)\<close>\<close>
  "cc_one_real_at delta1 delta0 =
     map_option (\<lambda>s. root 3 ((delta1 + s) / 2)) (fsqrt (delta1 ^ 2 - 4 * delta0 ^ 3))"

definition root_one_real_at :: "real \<Rightarrow> float \<Rightarrow> real \<Rightarrow> float" where
  \<comment> \<open>\<open>np.real(-(b + cc_one_real + delta0 / cc_one_real) / 3)\<close>\<close>
  "root_one_real_at b cc delta0 =
     do { cc' \<leftarrow> cc; q \<leftarrow> fdiv delta0 cc'; Some (- (b + cc' + q) / 3) }"

definition double_root_at :: "real \<Rightarrow> real \<Rightarrow> real \<Rightarrow> real \<Rightarrow> float" where
  \<comment> \<open>\<open>(9 * d - b * c) / (2 * delta0)\<close>\<close>
  "double_root_at b c d delta0 = fdiv (9 * d - b * c) (2 * delta0)"

definition simple_root_at :: "real \<Rightarrow> real \<Rightarrow> real \<Rightarrow> real \<Rightarrow> float" where
  \<comment> \<open>\<open>(4 * b * c - 9 * d - b ** 3) / delta0\<close>\<close>
  "simple_root_at b c d delta0 = fdiv (4 * b * c - 9 * d - b ^ 3) delta0"

definition cc_three_distinct_real_at :: "real \<Rightarrow> real \<Rightarrow> complex" where
  \<comment> \<open>\<open>((delta1 + np.sqrt((delta1 ** 2 - 4 * delta0 ** 3).astype(np.complex))) / 2) ** (1 / 3)\<close>\<close>
  "cc_three_distinct_real_at delta1 delta0 =
     cpow_third ((of_real delta1 + csqrt (of_real (delta1 ^ 2 - 4 * delta0 ^ 3))) / 2)"

definition xi :: complex where
  "xi = (- 1 + \<i> * of_real (sqrt 3)) / 2"

definition x0_at :: "real \<Rightarrow> complex \<Rightarrow> real \<Rightarrow> float" where
  "x0_at b cc delta0 =
     do { q \<leftarrow> fdiv (of_real delta0) cc; Some (Re (- (1 / 3) * (of_real b + cc + q))) }"

definition x1_at :: "real \<Rightarrow> complex \<Rightarrow> real \<Rightarrow> float" where
  "x1_at b cc delta0 =
     do { q \<leftarrow> fdiv (of_real delta0) (xi * cc);
          Some (Re (- (1 / 3) * (of_real b + xi * cc + q))) }"

definition x2_at :: "real \<Rightarrow> complex \<Rightarrow> real \<Rightarrow> float" where
  "x2_at b cc delta0 =
     do { q \<leftarrow> fdiv (of_real delta0) (xi ^ 2 * cc);
          Some (Re (- (1 / 3) * (of_real b + xi ^ 2 * cc + q))) }"

subsection \<open>\<open>kerr_detuning\<close> on the flat array of points\<close>

definition kerr_roots ::
  "real list \<Rightarrow> real \<Rightarrow> real \<Rightarrow> real \<Rightarrow> (float list \<Rightarrow> float) \<Rightarrow> float list" where
  "kerr_roots detuning coupling_loss internal_loss KXin chooser =
    (let roots = replicate (length detuning) (Some 0);
         b = map (\<lambda>x. - 2 * x) detuning;
         c = map (\<lambda>x. ((coupling_loss + internal_loss) / 2) ^ 2 + x ^ 2) detuning;
         d = - KXin * coupling_loss;
         delta0 = map2 (\<lambda>b c. b ^ 2 - 3 * c) b c;
         delta1 = map2 (\<lambda>b c. 2 * b ^ 3 - 9 * b * c + 27 * d) b c;
         delta = map2 (\<lambda>delta0 delta1. (4 * delta0 ^ 3 - delta1 ^ 2) / 27) delta0 delta1;
         three_distinct_real = map (\<lambda>x. x > 0) delta;
         multiple_real = map (\<lambda>x. x = 0) delta;
         one_real = map (\<lambda>x. x < 0) delta;
         cc_one_real = map2 cc_one_real_at (mask_get one_real delta1) (mask_get one_real delta0);
         roots1 = (if any one_real
                   then mask_set one_real roots
                          (map (\<lambda>(b, cc, delta0). root_one_real_at b cc delta0)
                             (zip (mask_get one_real b)
                                (zip cc_one_real (mask_get one_real delta0))))
                   else roots);
         triple = map2 (\<and>) multiple_real (map (\<lambda>x. x = 0) delta0);
         roots2 = (if any triple
                   then mask_set triple roots1 (map (\<lambda>b. Some (- b / 3)) (mask_get triple b))
                   else roots1);
         double_and_simple = map2 (\<and>) multiple_real (map (\<lambda>x. x \<noteq> 0) delta0);
         roots3 = (if any double_and_simple
                   then (let double_root = map (\<lambda>(b, c, delta0). double_root_at b c d delta0)
                                             (zip (mask_get double_and_simple b)
                                                (zip (mask_get double_and_simple c)
                                                   (mask_get double_and_simple delta0)));
                             simple_root = map (\<lambda>(b, c, delta0). simple_root_at b c d delta0)
                                             (zip (mask_get double_and_simple b)
                                                (zip (mask_get double_and_simple c)
                                                   (mask_get double_and_simple delta0)))
                         in mask_set double_and_simple roots2
                              (axis0 chooser [double_root, simple_root]))
                   else roots2);
         roots4 = (if any three_distinct_real
                   then (let cc_three_distinct_real =
                               map2 cc_three_distinct_real_at
                                 (mask_get three_distinct_real delta1)
                                 (mask_get three_distinct_real delta0);
                             bcd = zip (mask_get three_distinct_real b)
                                     (zip cc_three_distinct_real
                                        (mask_get three_distinct_real delta0));
                             x0 = map (\<lambda>(b, cc, delta0). x0_at b cc delta0) bcd;
                             x1 = map (\<lambda>(b, cc, delta0). x1_at b cc delta0) bcd;
                             x2 = map (\<lambda>(b, cc, delta0). x2_at b cc delta0) bcd
                         in mask_set three_distinct_real roots3 (axis0 chooser [x0, x1, x2]))
                   else roots3)
     in roots4)"

subsection \<open>What \<open>kerr_detuning\<close> computes at one point\<close>

definition b_at :: "real \<Rightarrow> real" where
  "b_at x = - 2 * x"

definition c_at :: "real \<Rightarrow> real \<Rightarrow> real \<Rightarrow> real" where
  "c_at coupling_loss internal_loss x = ((coupling_loss + internal_loss) / 2) ^ 2 + x ^ 2"

definition d_at :: "real \<Rightarrow> real \<Rightarrow> real" where
  "d_at coupling_loss KXin = - KXin * coupling_loss"

definition delta0_at :: "real \<Rightarrow> real \<Rightarrow> real \<Rightarrow> real" where
  "delta0_at coupling_loss internal_loss x = b_at x ^ 2 - 3 * c_at coupling_loss internal_loss x"

definition delta1_at :: "real \<Rightarrow> real \<Rightarrow> real \<Rightarrow> real \<Rightarrow> real" where
  "delta1_at coupling_loss internal_loss KXin x =
     2 * b_at x ^ 3 - 9 * b_at x * c_at coupling_loss internal_loss x
       + 27 * d_at coupling_loss KXin"

definition delta_at :: "real \<Rightarrow> real \<Rightarrow> real \<Rightarrow> real \<Rightarrow> real" where
  "delta_at coupling_loss internal_loss KXin x =
     (4 * delta0_at coupling_loss internal_loss x ^ 3
        - delta1_at coupling_loss internal_loss KXin x ^ 2) / 27"

definition kerr_point ::
  "real \<Rightarrow> real \<Rightarrow> real \<Rightarrow> (float list \<Rightarrow> float) \<Rightarrow> real \<Rightarrow> float" where
  "kerr_point coupling_loss internal_loss KXin chooser x =
    (let b = b_at x;
         c = c_at coupling_loss internal_loss x;
         d = d_at coupling_loss KXin;
         delta0 = delta0_at coupling_loss internal_loss x;
         delta1 = delta1_at coupling_loss internal_loss KXin x;
         delta = delta_at coupling_loss internal_loss KXin x;
         cc = cc_three_distinct_real_at delta1 delta0
     in if delta < 0 then root_one_real_at b (cc_one_real_at delta1 delta0) delta0
        else if delta = 0 \<and> delta0 = 0 then Some (- b / 3)
        else if delta = 0 then chooser [double_root_at b c d delta0, simple_root_at b c d delta0]
        else chooser [x0_at b cc delta0, x1_at b cc delta0, x2_at b cc delta0])"

definition cubic :: "real \<Rightarrow> real \<Rightarrow> real \<Rightarrow> real \<Rightarrow> real \<Rightarrow> real" where
  \<comment> \<open>the polynomial of the docstring, \<open>y^3 + b y^2 + c y + d\<close>, at the point \<open>x\<close>\<close>
  "cubic coupling_loss internal_loss KXin x y =
     y ^ 3 + b_at x * y ^ 2 + c_at coupling_loss internal_loss x * y + d_at coupling_loss KXin"

subsection \<open>\<open>kerr_detuning\<close>\<close>

text \<open>
  The call returns a result or raises, and it may reshape its argument in place; the model
  returns both the outcome and the caller's argument as it is after the call.
  A scalar is wrapped in a fresh one-element array (the caller's value is untouched); an
  array of shape \<open>()\<close> has its shape set to \<open>(1,)\<close> in place. \<open>roots\<close> is always
  one-dimensional, of \<open>detuning.size\<close> elements, so a mask of two or more dimensions
  cannot index it: the first assignment that is reached raises \<open>IndexError\<close>, and with
  real (not \<open>nan\<close>) discriminants one is reached as soon as there is a point.
\<close>

definition item0 :: "'a list \<Rightarrow> error + 'a" where
  \<comment> \<open>\<open>roots[0]\<close>\<close>
  "item0 roots = (if roots = [] then Inl IndexError else Inr (hd roots))"

definition kerr_detuning ::
  "real pyval \<Rightarrow> real \<Rightarrow> real \<Rightarrow> real \<Rightarrow> (float list \<Rightarrow> float)
     \<Rightarrow> (error + float pyval) \<times> real pyval" where
  "kerr_detuning detuning coupling_loss internal_loss KXin chooser =
    (case detuning of
       Scalar x \<Rightarrow>
         (map_sum id Scalar (item0 (kerr_roots [x] coupling_loss internal_loss KXin chooser)),
          Scalar x)
     | NdArray sh xs \<Rightarrow>
         if sh = [] then
           (map_sum id Scalar (item0 (kerr_roots xs coupling_loss internal_loss KXin chooser)),
            NdArray [1] xs)
         else if length sh = 1 then
           (let roots = kerr_roots xs coupling_loss internal_loss KXin chooser
            in (Inr (NdArray [length roots] roots), NdArray sh xs))
         else if xs = [] then (Inr (NdArray [0] []), NdArray sh xs)
         else (Inl IndexError, NdArray sh xs))"

definition kerr_detuning_at_bifurcation :: "real \<Rightarrow> real \<Rightarrow> float" where
  \<comment> \<open>\<open>3 ** (-3 / 2) * (internal_loss + coupling_loss) ** 3 / coupling_loss\<close>\<close>
  "kerr_detuning_at_bifurcation coupling_loss internal_loss =
     fdiv (3 powr (- 3 / 2) * (internal_loss + coupling_loss) ^ 3) coupling_loss"

section \<open>shunt.py\<close>

subsection \<open>The models\<close>

text \<open>
  \<open>Shunt.shunt\<close> and \<open>ShuntNonlinear.shunt_nonlinear\<close> at one frequency (on an array of
  frequencies numpy applies the same expression to every element). The value is \<open>None\<close>
  when a divisor is zero (a zero resonance frequency or coupling loss) and when the Kerr
  detuning is \<open>nan\<close>.
\<close>

definition shunt :: "real \<Rightarrow> real \<Rightarrow> real \<Rightarrow> real \<Rightarrow> real \<Rightarrow> complex option" where
  "shunt frequency resonance_frequency internal_loss coupling_loss asymmetry =
     do { q \<leftarrow> fdiv frequency resonance_frequency;
          let detuning = q - 1;
          w \<leftarrow> fdiv (of_real internal_loss + 2 * \<i> * of_real detuning) (of_real coupling_loss);
          v \<leftarrow> fdiv (1 + \<i> * of_real asymmetry) (1 + w);
          Some (1 - v) }"

definition shunt_nonlinear ::
  "(float list \<Rightarrow> float) \<Rightarrow> real \<Rightarrow> real \<Rightarrow> real \<Rightarrow> real \<Rightarrow> real \<Rightarrow> real
     \<Rightarrow> error + complex option pyval" where
  "shunt_nonlinear chooser frequency resonance_frequency internal_loss coupling_loss
       asymmetry KXin =
     (case fdiv frequency resonance_frequency of
        None \<Rightarrow> Inr (Scalar None)
      | Some q \<Rightarrow>
          (let detuning = q - 1;
               kerr_detuning = fst (kerr_detuning (Scalar detuning) coupling_loss internal_loss
                                      KXin chooser)
           in map_sum id
                (map_pyval (\<lambda>kerr.
                   do { k \<leftarrow> kerr;
                        w \<leftarrow> fdiv (of_real internal_loss + 2 * \<i> * of_real (detuning - k))
                               (of_real coupling_loss);
                        v \<leftarrow> fdiv (1 + \<i> * of_real asymmetry) (1 + w);
                        Some (1 - v) }))
                kerr_detuning))"

subsection \<open>The fitters' \<open>invert\<close>\<close>

text \<open>
  \<open>self.coupling_loss\<close> and \<open>self.asymmetry\<close> are the fitted parameters, looked up by the
  base class; they are parameters of the model.
\<close>

definition ShuntFitter_invert :: "real \<Rightarrow> real \<Rightarrow> complex \<Rightarrow> (real \<times> real) option" where
  "ShuntFitter_invert coupling_loss asymmetry scattering_data =
     do { q \<leftarrow> fdiv (1 + \<i> * of_real asymmetry) (1 - scattering_data);
          let z = of_real coupling_loss * (q - 1);
          Some (Im z / 2, Re z) }"

text \<open>
  The body of \<open>ShuntNonlinearFitter.invert\<close> is \<open>pass\<close>: the call returns Python's
  \<open>None\<close>, written \<open>PyNone\<close>; \<open>Returned\<close> would carry a (detuning, internal_loss) pair and
  \<open>Raised\<close> an exception.
\<close>

datatype invert_outcome = PyNone | Returned "real \<times> real" | Raised string

definition ShuntNonlinearFitter_invert :: "complex list \<Rightarrow> invert_outcome" where
  "ShuntNonlinearFitter_invert scattering_data = PyNone"

subsection \<open>\<open>guess_smooth\<close>\<close>

text \<open>The numpy functions it calls, on one-dimensional arrays.\<close>

fun scan :: "(real \<Rightarrow> real \<Rightarrow> bool) \<Rightarrow> real list \<Rightarrow> nat \<Rightarrow> nat \<Rightarrow> real \<Rightarrow> nat" where
  \<comment> \<open>one pass keeping the index of the first best element\<close>
  "scan better [] i best_i best = best_i"
| "scan better (x # xs) i best_i best =
     (if better x best then scan better xs (Suc i) i x else scan better xs (Suc i) best_i best)"

definition np_argmin :: "real list \<Rightarrow> error + nat" where
  "np_argmin xs = (case xs of [] \<Rightarrow> Inl ValueError | x # xs' \<Rightarrow> Inr (scan (<) xs' 1 0 x))"

definition np_argmax :: "real list \<Rightarrow> error + nat" where
  "np_argmax xs = (case xs of [] \<Rightarrow> Inl ValueError | x # xs' \<Rightarrow> Inr (scan (>) xs' 1 0 x))"

definition getitem :: "'a list \<Rightarrow> nat \<Rightarrow> error + 'a" where
  \<comment> \<open>\<open>a[k]\<close> for an index \<open>k \<ge> 0\<close>\<close>
  "getitem xs k = (if k < length xs then Inr (xs ! k) else Inl IndexError)"

definition linspace :: "real \<Rightarrow> real \<Rightarrow> nat \<Rightarrow> real list" where
  "linspace start stop num =
     (if num = 1 then [start]
      else map (\<lambda>i. start + real i * ((stop - start) / real (num - 1))) [0..<num])"

definition convolve_full :: "real list \<Rightarrow> real list \<Rightarrow> real list" where
  "convolve_full a v =
     map (\<lambda>k. \<Sum>j\<leftarrow>[0..<length a]. if j \<le> k \<and> k - j < length v then a ! j * v ! (k - j) else 0)
       [0..<length a + length v - 1]"

definition convolve_same :: "real list \<Rightarrow> real list \<Rightarrow> error + real list" where
  \<comment> \<open>\<open>np.convolve(a, v, mode='same')\<close>: the middle \<open>max(M, N)\<close> points of the full
      convolution; an empty argument raises\<close>
  "convolve_same a v =
     (if a = [] \<or> v = [] then Inl ValueError
      else Inr (take (max (length a) (length v))
                  (drop ((min (length a) (length v) - 1) div 2) (convolve_full a v))))"

definition linewidth_estimate :: "real list \<Rightarrow> complex list \<Rightarrow> error + real" where
  \<comment> \<open>lines 17 to 25: \<open>gaussian /= np.sum(gaussian)\<close> divides by a sum of exponentials,
      which is zero only when there is nothing to divide\<close>
  "linewidth_estimate frequency data =
     (let width = length frequency div 10;
          gaussian0 = map (\<lambda>t. exp (- (t ^ 2))) (linspace (- 4) 4 width);
          gaussian = map (\<lambda>g. g / sum_list gaussian0) gaussian0
      in case convolve_same gaussian (map cmod data) of
           Inl e \<Rightarrow> Inl e
         | Inr smoothed \<Rightarrow>
        (case convolve_same [1, - 1] smoothed of
           Inl e \<Rightarrow> Inl e
         | Inr derivative \<Rightarrow>
        (let window = (if width = 0 then []
                       else take (length derivative - 2 * width) (drop width derivative))
         in case np_argmax window of
              Inl e \<Rightarrow> Inl e
            | Inr imax \<Rightarrow>
           (case getitem frequency imax of
              Inl e \<Rightarrow> Inl e
            | Inr at_max \<Rightarrow>
           (case np_argmin window of
              Inl e \<Rightarrow> Inl e
            | Inr imin \<Rightarrow>
           (case getitem frequency imin of
              Inl e \<Rightarrow> Inl e
            | Inr at_min \<Rightarrow> Inr (at_max - at_min)))))))"

definition resonance_frequency_guess :: "real list \<Rightarrow> complex list \<Rightarrow> error + real" where
  \<comment> \<open>line 16: \<open>frequency[np.argmin(np.abs(data))]\<close>\<close>
  "resonance_frequency_guess frequency data =
     (case np_argmin (map cmod data) of
        Inl e \<Rightarrow> Inl e
      | Inr k \<Rightarrow> getitem frequency k)"

text \<open>
  The last five lines are scalar arithmetic on \<open>np.float64\<close> values, where a division by
  zero gives \<open>inf\<close> (or \<open>nan\<close> for \<open>0 / 0\<close>) and the computation goes on: with
  \<open>min |data| = 0\<close> it passes through \<open>1 / 0 = inf\<close> and \<open>1 / (inf - 1) = 0\<close> and comes
  back to finite numbers. These scalars therefore carry the IEEE special values. A real
  zero stands for \<open>+0.0\<close> (the zeros that can arise here, \<open>np.min(np.abs(data))\<close>,
  \<open>1.0 - 1.0\<close> and \<open>x - x\<close>, are positive zeros).
\<close>

datatype xfloat = Fin real | PInf | NInf | NaN

fun xneg :: "xfloat \<Rightarrow> xfloat" where
  "xneg (Fin a) = Fin (- a)"
| "xneg PInf = NInf"
| "xneg NInf = PInf"
| "xneg NaN = NaN"

fun xadd :: "xfloat \<Rightarrow> xfloat \<Rightarrow> xfloat" where
  "xadd (Fin a) (Fin b) = Fin (a + b)"
| "xadd NaN y = NaN"
| "xadd x NaN = NaN"
| "xadd PInf NInf = NaN"
| "xadd NInf PInf = NaN"
| "xadd PInf y = PInf"
| "xadd x PInf = PInf"
| "xadd NInf y = NInf"
| "xadd x NInf = NInf"

definition xsub :: "xfloat \<Rightarrow> xfloat \<Rightarrow> xfloat" where
  "xsub x y = xadd x (xneg y)"

fun xmul :: "xfloat \<Rightarrow> xfloat \<Rightarrow> xfloat" where
  "xmul (Fin a) (Fin b) = Fin (a * b)"
| "xmul NaN y = NaN"
| "xmul x NaN = NaN"
| "xmul (Fin a) PInf = (if a = 0 then NaN else if 0 < a then PInf else NInf)"
| "xmul (Fin a) NInf = (if a = 0 then NaN else if 0 < a then NInf else PInf)"
| "xmul PInf (Fin b) = (if b = 0 then NaN else if 0 < b then PInf else NInf)"
| "xmul NInf (Fin b) = (if b = 0 then NaN else if 0 < b then NInf else PInf)"
| "xmul PInf PInf = PInf"
| "xmul PInf NInf = NInf"
| "xmul NInf PInf = NInf"
| "xmul NInf NInf = PInf"

fun xdiv :: "xfloat \<Rightarrow> xfloat \<Rightarrow> xfloat" where
  "xdiv (Fin a) (Fin b) =
     (if b \<noteq> 0 then Fin (a / b) else if a = 0 then NaN else if 0 < a then PInf else NInf)"
| "xdiv NaN y = NaN"
| "xdiv x NaN = NaN"
| "xdiv (Fin a) PInf = Fin 0"
| "xdiv (Fin a) NInf = Fin 0"
| "xdiv PInf (Fin b) = (if 0 \<le> b then PInf else NInf)"
| "xdiv NInf (Fin b) = (if 0 \<le> b then NInf else PInf)"
| "xdiv PInf PInf = NaN"
| "xdiv PInf NInf = NaN"
| "xdiv NInf PInf = NaN"
| "xdiv NInf NInf = NaN"

definition guess_smooth :: "real list \<Rightarrow> complex list \<Rightarrow> error + real \<times> xfloat \<times> xfloat" where
  "guess_smooth frequency data =
     (case resonance_frequency_guess frequency data of
        Inl e \<Rightarrow> Inl e
      | Inr resonance_frequency \<Rightarrow>
     (case linewidth_estimate frequency data of
        Inl e \<Rightarrow> Inl e
      | Inr linewidth \<Rightarrow>
     (let internal_plus_coupling = xdiv (Fin linewidth) (Fin resonance_frequency);
          internal_over_coupling =
            xdiv (Fin 1) (xsub (xdiv (Fin 1) (Fin (Min (set (map cmod data))))) (Fin 1));
          coupling_loss = xdiv internal_plus_coupling (xadd (Fin 1) internal_over_coupling);
          internal_loss = xdiv (xmul internal_plus_coupling internal_over_coupling)
                            (xadd (Fin 1) internal_over_coupling)
      in Inr (resonance_frequency, coupling_loss, internal_loss))))"

section \<open>The array code and the point function agree\<close>

lemma mask_get_map: "mask_get (map p xs) (map f xs) = map f (filter p xs)"
  by (induction xs) auto

lemma zip_map_same: "zip (map f xs) (map g xs) = map (\<lambda>x. (f x, g x)) xs"
  by (induction xs) auto

lemma mask_set_map:
  "mask_set (map p xs) (map r xs) (map h (filter p xs)) = map (\<lambda>x. if p x then h x else r x) xs"
  by (induction xs) auto

lemma not_any_map: "\<not> any (map p xs) \<Longrightarrow> map r xs = map (\<lambda>x. if p x then h x else r x) xs"
  by (induction xs) (auto simp: any_def)

lemma masked_update:
  "(if any (map p xs) then mask_set (map p xs) (map r xs) (map h (filter p xs)) else map r xs)
     = map (\<lambda>x. if p x then h x else r x) xs"
  using not_any_map[of p xs r h] by (simp add: mask_set_map)

lemma axis0_2: "axis0 ch [map f xs, map g xs] = map (\<lambda>x. ch [f x, g x]) xs"
  by (rule nth_equalityI) (simp_all add: axis0_def)

lemma axis0_3: "axis0 ch [map f xs, map g xs, map h xs] = map (\<lambda>x. ch [f x, g x, h x]) xs"
  by (rule nth_equalityI) (simp_all add: axis0_def)

lemma kerr_roots_eq_map:
  "kerr_roots detuning coupling_loss internal_loss KXin chooser
     = map (kerr_point coupling_loss internal_loss KXin chooser) detuning"
  unfolding kerr_roots_def Let_def
  apply (simp only: zip_map_same map_map o_def mask_get_map split_conv axis0_2 axis0_3
       map_replicate_const[symmetric] masked_update)
  apply (rule map_cong[OF refl])
  apply (simp add: kerr_point_def Let_def b_at_def c_at_def d_at_def delta0_at_def
       delta1_at_def delta_at_def)
  done

section \<open>Cardano's formulas\<close>

lemma cardano_field:
  fixes u :: "'a::field_char_0"
  assumes u: "u \<noteq> 0" and u3: "2 * u^3 = d1 + s" and s2: "s^2 = d1^2 - 4 * d0^3"
  shows "(u + d0/u)^3 - 3*d0*(u + d0/u) - d1 = 0"
proof -
  have "(2 * u^3) * (2 * d1 - 2 * u^3) = (d1 + s) * (d1 - s)"
    unfolding u3 by (simp add: algebra_simps)
  also have "\<dots> = d1^2 - s^2" by (simp add: power2_eq_square algebra_simps)
  also have "\<dots> = 4 * d0^3" using s2 by simp
  finally have "4 * (u^3 * (d1 - u^3)) = 4 * d0^3" by (simp add: algebra_simps)
  then have k: "u^3 * (d1 - u^3) = d0^3" by simp
  have "(u + d0/u)^3 - 3*d0*(u + d0/u) - d1 = u^3 + d0^3 / u^3 - d1"
    using u by (simp add: field_simps power3_eq_cube)
  also have "\<dots> = (u^3 * u^3 + d0^3 - d1 * u^3) / u^3"
    using u by (simp add: field_simps)
  also have "u^3 * u^3 + d0^3 - d1 * u^3 = 0"
    unfolding k[symmetric] by (simp add: algebra_simps)
  finally show ?thesis by simp
qed

lemma cpow_third_cube: "cpow_third z ^ 3 = z"
proof -
  have "root 3 (cmod z) ^ 3 = cmod z" by (rule odd_real_root_pow) simp
  then show ?thesis by (simp add: cpow_third_def DeMoivre2 rcis_cmod_Arg)
qed

lemma xi_cube: "xi ^ 3 = 1"
  by (simp add: xi_def complex_eq_iff power3_eq_cube field_simps)

lemma xi_nz: "xi \<noteq> 0"
  using xi_cube by auto

lemma Re_xi_mult: "Re (xi * u) = - Re u / 2 - sqrt 3 / 2 * Im u"
  by (simp add: xi_def field_simps)

lemma Re_xi2_mult: "Re (xi ^ 2 * u) = - Re u / 2 + sqrt 3 / 2 * Im u"
  by (simp add: xi_def power2_eq_square field_simps)

lemma three_real_candidate:
  fixes d0 d1 b :: real and u :: complex
  assumes pos: "d1^2 < 4 * d0^3"
    and u3: "u ^ 3 = (of_real d1 + csqrt (of_real (d1^2 - 4 * d0^3))) / 2"
  shows "u \<noteq> 0"
    and "fdiv (of_real d0) u = Some (cnj u)"
    and "(2 * Re u)^3 - 3 * d0 * (2 * Re u) - d1 = 0"
proof -
  let ?D = "d1^2 - 4 * d0^3"
  have Dneg: "?D < 0" using pos by simp
  have cs: "csqrt (of_real ?D) = \<i> * of_real (sqrt (- ?D))"
    using Dneg csqrt_of_real_nonpos[of "of_real ?D"] by simp
  have d0pos: "0 < d0"
  proof (rule ccontr)
    assume "\<not> 0 < d0"
    then have "d0 \<le> 0" by simp
    then have "d0 ^ 3 \<le> 0" by (simp add: power3_eq_cube mult_nonneg_nonpos2 zero_le_mult_iff mult_le_0_iff)
    with pos show False using zero_le_power2[of d1] by linarith
  qed
  have Imz: "Im (u ^ 3) = sqrt (- ?D) / 2" unfolding u3 cs by simp
  have Rez: "Re (u ^ 3) = d1 / 2" unfolding u3 cs by simp
  have "Im (u ^ 3) > 0" unfolding Imz using Dneg by simp
  then have "u ^ 3 \<noteq> 0" by auto
  then show unz: "u \<noteq> 0" by auto
  have "(cmod (u^3))^2 = (d1/2)^2 + (sqrt (- ?D) / 2)^2"
    unfolding cmod_power2 Rez Imz ..
  also have "\<dots> = d0 ^ 3" using Dneg by (simp add: field_simps)
  finally have c6: "(cmod (u^3))^2 = d0 ^ 3" .
  have "((cmod u)^2)^3 = (cmod (u^3))^2"
    unfolding norm_power power_mult[symmetric] by simp
  with c6 have "((cmod u)^2)^3 = d0 ^ 3" by simp
  moreover have "0 \<le> (cmod u)^2" "0 \<le> d0" using d0pos by simp_all
  ultimately have m: "(cmod u)^2 = d0"
    using power_eq_imp_eq_base[of "(cmod u)^2" 3 d0] by simp
  have "u * cnj u = of_real d0" using complex_norm_square[of u] m by simp
  then have q: "of_real d0 / u = cnj u" using unz by (simp add: field_simps)
  then show "fdiv (of_real d0) u = Some (cnj u)" using unz by (simp add: fdiv_def)
  have s2: "(csqrt (of_real ?D))^2 = of_real d1 ^ 2 - 4 * of_real d0 ^ 3" by simp
  have "(u + of_real d0 / u)^3 - 3 * of_real d0 * (u + of_real d0 / u) - of_real d1 = 0"
    by (rule cardano_field[OF unz _ s2]) (simp add: u3)
  moreover have "u + of_real d0 / u = of_real (2 * Re u)"
    unfolding q by (simp add: complex_eq_iff)
  ultimately have "(of_real ((2 * Re u)^3 - 3 * d0 * (2 * Re u) - d1) :: complex) = 0"
    by simp
  then show "(2 * Re u)^3 - 3 * d0 * (2 * Re u) - d1 = 0"
    unfolding of_real_eq_0_iff .
qed


lemma depressed:
  fixes y :: "'a::comm_ring_1"
  shows "27 * (y^3 + b*y^2 + c*y + d)
     = (3*y+b)^3 - 3*(b^2 - 3*c)*(3*y+b) + (2*b^3 - 9*b*c + 27*d)"
  by (simp add: power3_eq_cube power2_eq_square algebra_simps)

lemma cubic_depressed:
  "27 * cubic coupling_loss internal_loss KXin x y
     = (3 * y + b_at x) ^ 3 - 3 * delta0_at coupling_loss internal_loss x * (3 * y + b_at x)
         + delta1_at coupling_loss internal_loss KXin x"
  unfolding cubic_def delta0_at_def delta1_at_def by (rule depressed)

lemma cubic_zero_iff:
  "cubic coupling_loss internal_loss KXin x y = 0 \<longleftrightarrow>
     (3 * y + b_at x) ^ 3 - 3 * delta0_at coupling_loss internal_loss x * (3 * y + b_at x)
         + delta1_at coupling_loss internal_loss KXin x = 0"
  using cubic_depressed[of coupling_loss internal_loss KXin x y] by auto

lemma double_simple_shift:
  fixes b c d :: real
  assumes nz: "b^2 - 3*c \<noteq> 0"
  shows "3 * ((9*d - b*c) / (2*(b^2 - 3*c))) + b = (2*b^3 - 9*b*c + 27*d) / (2*(b^2 - 3*c))"
    and "3 * ((4*b*c - 9*d - b^3) / (b^2 - 3*c)) + b = - (2*b^3 - 9*b*c + 27*d) / (b^2 - 3*c)"
  using nz by (simp_all add: field_simps power3_eq_cube power2_eq_square)

lemma dep_double:
  fixes d0 d1 :: real
  assumes z: "4 * d0^3 = d1^2" and nz: "d0 \<noteq> 0"
  shows "(d1 / (2*d0))^3 - 3*d0*(d1 / (2*d0)) + d1 = 0"
proof -
  have "(d1 / (2*d0))^3 - 3*d0*(d1 / (2*d0)) + d1 = d1 * (d1^2 - 4 * d0^3) / (8 * d0^3)"
    using nz by (simp add: field_simps power3_eq_cube power2_eq_square)
  then show ?thesis using z by simp
qed

lemma dep_simple:
  fixes d0 d1 :: real
  assumes z: "4 * d0^3 = d1^2" and nz: "d0 \<noteq> 0"
  shows "(- d1 / d0)^3 - 3*d0*(- d1 / d0) + d1 = 0"
proof -
  have "(- d1 / d0)^3 - 3*d0*(- d1 / d0) + d1 = - d1 * (d1^2 - 4 * d0^3) / (d0^3)"
    using nz by (simp add: field_simps power3_eq_cube power2_eq_square)
  then show ?thesis using z by simp
qed

section \<open>The branches of \<open>kerr_detuning\<close> at one point\<close>

lemma np_min_2: "np_min [Some a, Some b] = Some (min a b)"
  by (simp add: fmin_def)

lemma np_max_2: "np_max [Some a, Some b] = Some (max a b)"
  by (simp add: fmax_def)

lemma np_min_3: "np_min [Some a, Some b, Some c] = Some (min (min a b) c)"
  by (simp add: fmin_def)

lemma np_max_3: "np_max [Some a, Some b, Some c] = Some (max (max a b) c)"
  by (simp add: fmax_def)

lemma kerr_point_double_and_simple:
  assumes dz: "delta_at coupling_loss internal_loss KXin x = 0"
    and nz: "delta0_at coupling_loss internal_loss x \<noteq> 0"
  defines "dr \<equiv> (9 * d_at coupling_loss KXin - b_at x * c_at coupling_loss internal_loss x)
                   / (2 * delta0_at coupling_loss internal_loss x)"
    and "sr \<equiv> (4 * b_at x * c_at coupling_loss internal_loss x - 9 * d_at coupling_loss KXin
                   - b_at x ^ 3) / delta0_at coupling_loss internal_loss x"
  shows "kerr_point coupling_loss internal_loss KXin chooser x = chooser [Some dr, Some sr]"
    and "cubic coupling_loss internal_loss KXin x dr = 0"
    and "cubic coupling_loss internal_loss KXin x sr = 0"
    and "dr \<noteq> sr"
proof -
  let ?d0 = "delta0_at coupling_loss internal_loss x"
  let ?d1 = "delta1_at coupling_loss internal_loss KXin x"
  have z: "4 * ?d0 ^ 3 = ?d1 ^ 2" using dz by (simp add: delta_at_def)
  show "kerr_point coupling_loss internal_loss KXin chooser x = chooser [Some dr, Some sr]"
    using dz nz by (simp add: kerr_point_def Let_def double_root_at_def simple_root_at_def
        fdiv_def dr_def sr_def)
  have nz': "b_at x ^ 2 - 3 * c_at coupling_loss internal_loss x \<noteq> 0"
    using nz by (simp add: delta0_at_def)
  have sd: "3 * dr + b_at x = ?d1 / (2 * ?d0)"
    unfolding dr_def delta0_at_def delta1_at_def
    using double_simple_shift(1)[OF nz'] by simp
  have ss: "3 * sr + b_at x = - ?d1 / ?d0"
    unfolding sr_def delta0_at_def delta1_at_def
    using double_simple_shift(2)[OF nz'] by simp
  show "cubic coupling_loss internal_loss KXin x dr = 0"
    unfolding cubic_zero_iff sd by (rule dep_double[OF z nz])
  show "cubic coupling_loss internal_loss KXin x sr = 0"
    unfolding cubic_zero_iff ss by (rule dep_simple[OF z nz])
  have d1nz: "?d1 \<noteq> 0"
  proof
    assume "?d1 = 0"
    with z have "?d0 ^ 3 = 0" by simp
    with nz show False by simp
  qed
  show "dr \<noteq> sr"
  proof
    assume "dr = sr"
    then have "?d1 / (2 * ?d0) = - ?d1 / ?d0" using sd ss by simp
    then show False using nz d1nz by (simp add: field_simps)
  qed
qed


lemma three_real_root:
  assumes pos: "0 < delta_at coupling_loss internal_loss KXin x"
    and u3: "u ^ 3 = (of_real (delta1_at coupling_loss internal_loss KXin x)
                + csqrt (of_real (delta1_at coupling_loss internal_loss KXin x ^ 2
                                  - 4 * delta0_at coupling_loss internal_loss x ^ 3))) / 2"
  shows "do { q \<leftarrow> fdiv (of_real (delta0_at coupling_loss internal_loss x)) u;
              Some (Re (- (1 / 3) * (of_real (b_at x) + u + q))) }
           = Some (- (b_at x + 2 * Re u) / 3)"
    and "cubic coupling_loss internal_loss KXin x (- (b_at x + 2 * Re u) / 3) = 0"
    and "u \<noteq> 0"
proof -
  let ?d0 = "delta0_at coupling_loss internal_loss x"
  let ?d1 = "delta1_at coupling_loss internal_loss KXin x"
  have lt: "?d1 ^ 2 < 4 * ?d0 ^ 3" using pos by (simp add: delta_at_def)
  note c = three_real_candidate[OF lt u3]
  show "u \<noteq> 0" by (rule c(1))
  show "do { q \<leftarrow> fdiv (of_real ?d0) u; Some (Re (- (1 / 3) * (of_real (b_at x) + u + q))) }
           = Some (- (b_at x + 2 * Re u) / 3)"
  proof -
    have "Re (- (1 / 3) * (of_real (b_at x) + u + cnj u)) = - (b_at x + 2 * Re u) / 3"
      by (simp add: field_simps)
    then show ?thesis unfolding c(2) by (simp only: bind.bind_lunit)
  qed
  have "3 * (- (b_at x + 2 * Re u) / 3) + b_at x = - (2 * Re u)" by (simp add: field_simps)
  moreover have "(- (2 * Re u)) ^ 3 - 3 * ?d0 * (- (2 * Re u)) + ?d1
      = - ((2 * Re u) ^ 3 - 3 * ?d0 * (2 * Re u) - ?d1)"
    by (simp add: power3_eq_cube algebra_simps)
  ultimately show "cubic coupling_loss internal_loss KXin x (- (b_at x + 2 * Re u) / 3) = 0"
    unfolding cubic_zero_iff using c(3) by simp
qed

lemma xi_rotations_differ:
  assumes "Re u = Re (xi * u)" "Re (xi * u) = Re (xi ^ 2 * u)"
  shows "u = 0"
proof -
  have a: "Re u = - Re u / 2 - sqrt 3 / 2 * Im u" using assms(1) by (simp only: Re_xi_mult)
  have b: "- Re u / 2 - sqrt 3 / 2 * Im u = - Re u / 2 + sqrt 3 / 2 * Im u"
    using assms(2) by (simp only: Re_xi_mult Re_xi2_mult)
  from b have "sqrt 3 * Im u = 0" by simp
  then have i: "Im u = 0" by simp
  with a have "Re u = 0" by simp
  with i show ?thesis by (simp add: complex_eq_iff)
qed

lemma kerr_point_three_distinct_real:
  assumes pos: "0 < delta_at coupling_loss internal_loss KXin x"
  shows "\<exists>x0 x1 x2.
           (\<forall>chooser. kerr_point coupling_loss internal_loss KXin chooser x
                        = chooser [Some x0, Some x1, Some x2])
         \<and> cubic coupling_loss internal_loss KXin x x0 = 0
         \<and> cubic coupling_loss internal_loss KXin x x1 = 0
         \<and> cubic coupling_loss internal_loss KXin x x2 = 0
         \<and> \<not> (x0 = x1 \<and> x1 = x2)"
proof -
  let ?d0 = "delta0_at coupling_loss internal_loss x"
  let ?d1 = "delta1_at coupling_loss internal_loss KXin x"
  let ?cc = "cc_three_distinct_real_at ?d1 ?d0"
  let ?z = "(of_real ?d1 + csqrt (of_real (?d1 ^ 2 - 4 * ?d0 ^ 3))) / 2"
  let ?r = "\<lambda>u. - (b_at x + 2 * Re u) / 3"
  have c0: "?cc ^ 3 = ?z" by (simp add: cc_three_distinct_real_at_def cpow_third_cube)
  have c1: "(xi * ?cc) ^ 3 = ?z" by (simp add: power_mult_distrib xi_cube c0)
  have "(xi ^ 2) ^ 3 = (xi ^ 3) ^ 2" by (simp add: power_mult[symmetric])
  then have "(xi ^ 2) ^ 3 = 1" by (simp add: xi_cube)
  then have c2: "(xi ^ 2 * ?cc) ^ 3 = ?z" by (simp add: power_mult_distrib c0)
  note r0 = three_real_root[OF pos c0] and r1 = three_real_root[OF pos c1]
    and r2 = three_real_root[OF pos c2]
  have k: "\<forall>chooser. kerr_point coupling_loss internal_loss KXin chooser x
      = chooser [Some (?r ?cc), Some (?r (xi * ?cc)), Some (?r (xi ^ 2 * ?cc))]"
    using pos unfolding kerr_point_def Let_def x0_at_def x1_at_def x2_at_def r0(1) r1(1) r2(1)
    by simp
  have "\<not> (?r ?cc = ?r (xi * ?cc) \<and> ?r (xi * ?cc) = ?r (xi ^ 2 * ?cc))"
  proof
    assume "?r ?cc = ?r (xi * ?cc) \<and> ?r (xi * ?cc) = ?r (xi ^ 2 * ?cc)"
    then have "Re ?cc = Re (xi * ?cc)" "Re (xi * ?cc) = Re (xi ^ 2 * ?cc)" by simp_all
    then have "?cc = 0" by (rule xi_rotations_differ)
    with r0(3) show False by simp
  qed
  with k r0(2) r1(2) r2(2) show ?thesis by blast
qed

lemma kerr_point_min_max:
  assumes "(delta_at coupling_loss internal_loss KXin x = 0
              \<and> delta0_at coupling_loss internal_loss x \<noteq> 0)
           \<or> 0 < delta_at coupling_loss internal_loss KXin x"
  shows "\<exists>rmin rmax.
           kerr_point coupling_loss internal_loss KXin np_min x = Some rmin
         \<and> kerr_point coupling_loss internal_loss KXin np_max x = Some rmax
         \<and> rmin < rmax
         \<and> cubic coupling_loss internal_loss KXin x rmin = 0
         \<and> cubic coupling_loss internal_loss KXin x rmax = 0"
  using assms
proof
  assume a: "delta_at coupling_loss internal_loss KXin x = 0
              \<and> delta0_at coupling_loss internal_loss x \<noteq> 0"
  note d = kerr_point_double_and_simple[OF conjunct1[OF a] conjunct2[OF a]]
  show ?thesis
    unfolding d(1) np_min_2 np_max_2 using d(2,3,4)
    by (auto simp: min_def max_def)
next
  assume pos: "0 < delta_at coupling_loss internal_loss KXin x"
  obtain x0 x1 x2 where
    k: "\<And>chooser. kerr_point coupling_loss internal_loss KXin chooser x
          = chooser [Some x0, Some x1, Some x2]"
    and r: "cubic coupling_loss internal_loss KXin x x0 = 0"
      "cubic coupling_loss internal_loss KXin x x1 = 0"
      "cubic coupling_loss internal_loss KXin x x2 = 0"
    and ne: "\<not> (x0 = x1 \<and> x1 = x2)"
    using kerr_point_three_distinct_real[OF pos] by blast
  show ?thesis
    unfolding k np_min_3 np_max_3 using r ne
    by (auto simp: min_def max_def)
qed

lemma shift_back: "3 * (- (b + t) / 3) + b = - (t::real)"
  by (simp add: field_simps)

lemma neg_depressed: "(- t) ^ 3 - 3 * d0 * (- t) + d1 = - (t ^ 3 - 3 * d0 * t - (d1::real))"
  by (simp add: power3_eq_cube algebra_simps)

lemma kerr_point_nan:
  assumes z: "delta0_at coupling_loss internal_loss x = 0"
    and neg: "delta1_at coupling_loss internal_loss KXin x < 0"
  shows "kerr_point coupling_loss internal_loss KXin chooser x = None"
proof -
  let ?d1 = "delta1_at coupling_loss internal_loss KXin x"
  have d: "delta_at coupling_loss internal_loss KXin x < 0"
    using z neg by (simp add: delta_at_def)
  have "sqrt (?d1 ^ 2) = - ?d1" using neg by simp
  then have "cc_one_real_at ?d1 0 = Some 0"
    by (simp add: cc_one_real_at_def fsqrt_def)
  then show ?thesis using d z
    by (simp add: kerr_point_def Let_def root_one_real_at_def fdiv_def)
qed

lemma kerr_point_triple:
  assumes dz: "delta_at coupling_loss internal_loss KXin x = 0"
    and z: "delta0_at coupling_loss internal_loss x = 0"
  shows "kerr_point coupling_loss internal_loss KXin chooser x = Some (- b_at x / 3)"
    and "cubic coupling_loss internal_loss KXin x (- b_at x / 3) = 0"
proof -
  show "kerr_point coupling_loss internal_loss KXin chooser x = Some (- b_at x / 3)"
    using dz z by (simp add: kerr_point_def Let_def)
  have "delta1_at coupling_loss internal_loss KXin x = 0"
    using dz z by (simp add: delta_at_def)
  then show "cubic coupling_loss internal_loss KXin x (- b_at x / 3) = 0"
    unfolding cubic_zero_iff using z by simp
qed

lemma kerr_point_one_real:
  assumes neg: "delta_at coupling_loss internal_loss KXin x < 0"
    and ok: "\<not> (delta0_at coupling_loss internal_loss x = 0
                \<and> delta1_at coupling_loss internal_loss KXin x < 0)"
  shows "\<exists>r. kerr_point coupling_loss internal_loss KXin chooser x = Some r
            \<and> cubic coupling_loss internal_loss KXin x r = 0"
proof -
  let ?d0 = "delta0_at coupling_loss internal_loss x"
  let ?d1 = "delta1_at coupling_loss internal_loss KXin x"
  let ?D = "?d1 ^ 2 - 4 * ?d0 ^ 3"
  let ?s = "sqrt ?D"
  let ?C = "root 3 ((?d1 + ?s) / 2)"
  have Dpos: "0 < ?D" using neg by (simp add: delta_at_def)
  have s2: "?s ^ 2 = ?d1 ^ 2 - 4 * ?d0 ^ 3" using Dpos by simp
  have C3: "?C ^ 3 = (?d1 + ?s) / 2" by (rule odd_real_root_pow) simp
  have cc: "cc_one_real_at ?d1 ?d0 = Some ?C"
    using Dpos by (simp add: cc_one_real_at_def fsqrt_def)
  have Cnz: "?C \<noteq> 0"
  proof
    assume "?C = 0"
    then have e: "?s = - ?d1" by simp
    then have "?s ^ 2 = ?d1 ^ 2" by simp
    with s2 have "?d0 ^ 3 = 0" by simp
    then have z: "?d0 = 0" by simp
    have "0 \<le> ?s" using Dpos by simp
    with e have "?d1 \<le> 0" by simp
    moreover have "?d1 \<noteq> 0" using Dpos z by auto
    ultimately show False using ok z by simp
  qed
  let ?r = "- (b_at x + ?C + ?d0 / ?C) / 3"
  have k: "kerr_point coupling_loss internal_loss KXin chooser x = Some ?r"
    using neg Cnz by (simp add: kerr_point_def Let_def cc root_one_real_at_def fdiv_def)
  have "2 * ?C ^ 3 = ?d1 + ?s" using C3 by simp
  from cardano_field[OF Cnz this s2]
  have t: "(?C + ?d0 / ?C) ^ 3 - 3 * ?d0 * (?C + ?d0 / ?C) - ?d1 = 0" .
  have "cubic coupling_loss internal_loss KXin x (- (b_at x + (?C + ?d0 / ?C)) / 3) = 0"
    unfolding cubic_zero_iff shift_back neg_depressed using t by simp
  then have "cubic coupling_loss internal_loss KXin x ?r = 0"
    by (simp only: add.assoc)
  with k show ?thesis by blast
qed

lemma kerr_point_root:
  assumes ok: "\<not> (delta0_at coupling_loss internal_loss x = 0
                \<and> delta1_at coupling_loss internal_loss KXin x < 0)"
    and ch: "chooser = np_min \<or> chooser = np_max"
  shows "\<exists>r. kerr_point coupling_loss internal_loss KXin chooser x = Some r
            \<and> cubic coupling_loss internal_loss KXin x r = 0"
proof -
  let ?dl = "delta_at coupling_loss internal_loss KXin x"
  let ?dz = "delta0_at coupling_loss internal_loss x"
  consider "?dl < 0" | "?dl = 0 \<and> ?dz = 0"
    | "(?dl = 0 \<and> ?dz \<noteq> 0) \<or> 0 < ?dl"
    by linarith
  then show ?thesis
  proof cases
    case 1
    then show ?thesis using kerr_point_one_real[OF _ ok] by blast
  next
    case 2
    then show ?thesis using kerr_point_triple[of coupling_loss internal_loss KXin x] by blast
  next
    case 3
    then show ?thesis using kerr_point_min_max[OF 3] ch by blast
  qed
qed

section \<open>\<open>kerr_detuning\<close> on scalars and arrays\<close>

lemma kerr_detuning_scalar:
  "kerr_detuning (Scalar x) coupling_loss internal_loss KXin chooser
     = (Inr (Scalar (kerr_point coupling_loss internal_loss KXin chooser x)), Scalar x)"
  by (simp add: kerr_detuning_def kerr_roots_eq_map item0_def)

lemma kerr_detuning_zero_dim:
  "kerr_detuning (NdArray [] [x]) coupling_loss internal_loss KXin chooser
     = (Inr (Scalar (kerr_point coupling_loss internal_loss KXin chooser x)), NdArray [1] [x])"
  by (simp add: kerr_detuning_def kerr_roots_eq_map item0_def)

lemma kerr_detuning_one_dim:
  "kerr_detuning (NdArray [length xs] xs) coupling_loss internal_loss KXin chooser
     = (Inr (NdArray [length xs] (map (kerr_point coupling_loss internal_loss KXin chooser) xs)),
        NdArray [length xs] xs)"
  by (simp add: kerr_detuning_def kerr_roots_eq_map Let_def)

lemma sqrt3_cube: "sqrt 3 ^ 3 = 3 * sqrt 3"
  by (simp add: power3_eq_cube)

lemma defect_point:
  "delta0_at (1 / 2) (1 / 2) (- sqrt 3 / 2) = 0"
  "delta1_at (1 / 2) (1 / 2) 0 (- sqrt 3 / 2) < 0"
  by (simp_all add: delta0_at_def delta1_at_def b_at_def c_at_def d_at_def power2_eq_square
      sqrt3_cube field_simps)

lemma kerr_point_defect: "kerr_point (1 / 2) (1 / 2) 0 chooser (- sqrt 3 / 2) = None"
  by (rule kerr_point_nan[OF defect_point])

lemma three_powr: "3 powr (- 3 / 2) = 1 / (3 * sqrt 3)"
proof -
  have "(3 / 2 :: real) = 1 + 1 / 2" by simp
  then have "3 powr (3 / 2 :: real) = 3 powr (1 + 1 / 2)" by (rule arg_cong)
  also have "\<dots> = 3 powr 1 * 3 powr (1 / 2)"
    by (rule powr_add)
  also have "\<dots> = 3 * sqrt 3" by (simp add: powr_half_sqrt)
  finally have "3 powr (3 / 2 :: real) = 3 * sqrt 3" .
  moreover have "3 powr (- 3 / 2 :: real) = 1 / 3 powr (3 / 2)"
    using powr_minus_divide[of 3 "3 / 2"] by simp
  ultimately show ?thesis by simp
qed

lemma bifurcation_point:
  fixes k :: real
  assumes cl: "coupling_loss \<noteq> 0" and k: "k = coupling_loss + internal_loss"
  shows "delta0_at coupling_loss internal_loss (sqrt 3 / 2 * k) = 0"
    and "delta1_at coupling_loss internal_loss (k ^ 3 / (3 * sqrt 3) / coupling_loss)
           (sqrt 3 / 2 * k) = 0"
proof -
  have s: "sqrt 3 * sqrt 3 = 3" by simp
  have x2: "(sqrt 3 / 2 * k) ^ 2 = 3 / 4 * k ^ 2"
    by (simp add: power_mult_distrib power_divide)
  have b2: "b_at (sqrt 3 / 2 * k) = - (sqrt 3 * k)" by (simp add: b_at_def)
  have c: "c_at coupling_loss internal_loss (sqrt 3 / 2 * k) = k ^ 2"
    unfolding c_at_def x2 k[symmetric] by (simp add: power_divide)
  show "delta0_at coupling_loss internal_loss (sqrt 3 / 2 * k) = 0"
    unfolding delta0_at_def b2 c by (simp add: power_mult_distrib)
  have d: "27 * d_at coupling_loss (k ^ 3 / (3 * sqrt 3) / coupling_loss) = - (3 * sqrt 3 * k ^ 3)"
  proof -
    have "d_at coupling_loss (k ^ 3 / (3 * sqrt 3) / coupling_loss) = - (k ^ 3 / (3 * sqrt 3))"
      using cl by (simp add: d_at_def)
    moreover have "27 * (k ^ 3 / (3 * sqrt 3)) = 3 * sqrt 3 * k ^ 3"
      by (simp add: field_simps)
    ultimately show ?thesis by simp
  qed
  have b3: "(- (sqrt 3 * k)) ^ 3 = - (3 * sqrt 3 * k ^ 3)"
    by (simp add: power3_eq_cube)
  show "delta1_at coupling_loss internal_loss (k ^ 3 / (3 * sqrt 3) / coupling_loss)
           (sqrt 3 / 2 * k) = 0"
    unfolding delta1_at_def b2 c d b3 by (simp add: power3_eq_cube power2_eq_square)
qed

section \<open>The linear model and its inverse\<close>

lemma Re_pos_nz: "0 < Re z \<Longrightarrow> z \<noteq> 0"
  by auto

lemma shunt_value:
  assumes "resonance_frequency \<noteq> 0" "coupling_loss > 0" "internal_loss > 0"
  shows "shunt frequency resonance_frequency internal_loss coupling_loss asymmetry
     = Some (1 - (1 + \<i> * of_real asymmetry) /
          (1 + (of_real internal_loss + 2 * \<i> * of_real (frequency / resonance_frequency - 1)) / of_real coupling_loss))"
proof -
  have "Re (1 + (of_real internal_loss + 2 * \<i> * of_real (frequency / resonance_frequency - 1)) / of_real coupling_loss) = 1 + internal_loss / coupling_loss"
    by simp
  also have "\<dots> > 0" using assms by (simp add: add_pos_pos)
  finally have "1 + (of_real internal_loss + 2 * \<i> * of_real (frequency / resonance_frequency - 1)) / of_real coupling_loss \<noteq> 0"
    by (rule Re_pos_nz)
  then show ?thesis using assms by (simp add: shunt_def fdiv_def Let_def)
qed

section \<open>Zero drive\<close>

lemma delta_zero_drive:
  "delta_at coupling_loss internal_loss 0 x
     = - ((coupling_loss + internal_loss) ^ 2
          * (x ^ 2 + (coupling_loss + internal_loss) ^ 2 / 4) ^ 2)"
proof -
  define k where "k = coupling_loss + internal_loss"
  have "(4 * (4 * x ^ 2 - 3 * ((k / 2) ^ 2 + x ^ 2)) ^ 3
          - (2 * (- 2 * x) ^ 3 - 9 * (- 2 * x) * ((k / 2) ^ 2 + x ^ 2)) ^ 2) / 27
        = - (k ^ 2 * (x ^ 2 + k ^ 2 / 4) ^ 2)"
    by (simp add: power2_eq_square power3_eq_cube field_simps)
  then show ?thesis
    by (simp add: delta_at_def delta0_at_def delta1_at_def b_at_def c_at_def d_at_def k_def
        power_mult_distrib)
qed

lemma kerr_point_zero_drive:
  assumes cl: "0 < coupling_loss" and il: "0 < internal_loss"
    and nd: "x \<noteq> - (sqrt 3 / 2) * (coupling_loss + internal_loss)"
  shows "kerr_point coupling_loss internal_loss 0 chooser x = Some 0"
proof -
  define k where "k = coupling_loss + internal_loss"
  have kpos: "0 < k" using cl il by (simp add: k_def)
  have "0 < k ^ 2 * (x ^ 2 + k ^ 2 / 4) ^ 2"
    using kpos by (intro mult_pos_pos zero_less_power add_nonneg_pos) simp_all
  then have neg: "delta_at coupling_loss internal_loss 0 x < 0"
    unfolding delta_zero_drive k_def by simp
  have ok: "\<not> (delta0_at coupling_loss internal_loss x = 0
               \<and> delta1_at coupling_loss internal_loss 0 x < 0)"
  proof
    assume a: "delta0_at coupling_loss internal_loss x = 0
               \<and> delta1_at coupling_loss internal_loss 0 x < 0"
    have d0: "delta0_at coupling_loss internal_loss x = x ^ 2 - 3 / 4 * k ^ 2"
      by (simp add: delta0_at_def b_at_def c_at_def k_def power2_eq_square field_simps)
    have d1: "delta1_at coupling_loss internal_loss 0 x = x * (2 * x ^ 2 + 9 / 2 * k ^ 2)"
      by (simp add: delta1_at_def b_at_def c_at_def d_at_def k_def power2_eq_square
          power3_eq_cube field_simps)
    have "0 < 2 * x ^ 2 + 9 / 2 * k ^ 2"
      using kpos by (intro add_nonneg_pos) simp_all
    with a have xneg: "x < 0" unfolding d1 by (simp add: mult_less_0_iff)
    from a have "x ^ 2 = (sqrt 3 / 2 * k) ^ 2"
      unfolding d0 by (simp add: power_mult_distrib power_divide)
    then have "x = sqrt 3 / 2 * k \<or> x = - (sqrt 3 / 2 * k)" by (simp only: power2_eq_iff)
    moreover have "0 < sqrt 3 / 2 * k" using kpos by simp
    ultimately have "x = - (sqrt 3 / 2) * k" using xneg by auto
    with nd show False by (simp add: k_def)
  qed
  obtain r where r: "kerr_point coupling_loss internal_loss 0 chooser x = Some r"
    and c: "cubic coupling_loss internal_loss 0 x r = 0"
    using kerr_point_one_real[OF neg ok] by blast
  have "cubic coupling_loss internal_loss 0 x r = r * ((r - x) ^ 2 + k ^ 2 / 4)"
    by (simp add: cubic_def b_at_def c_at_def d_at_def k_def power2_eq_square power3_eq_cube
        field_simps)
  moreover have "0 < (r - x) ^ 2 + k ^ 2 / 4"
    using kpos by (intro add_nonneg_pos) simp_all
  ultimately have "r = 0" using c by simp
  with r show ?thesis by simp
qed

lemma shunt_nonlinear_zero_drive:
  assumes rf: "resonance_frequency \<noteq> 0"
    and cl: "0 < coupling_loss" and il: "0 < internal_loss"
    and nd: "frequency / resonance_frequency - 1
               \<noteq> - (sqrt 3 / 2) * (coupling_loss + internal_loss)"
  shows "shunt_nonlinear chooser frequency resonance_frequency internal_loss coupling_loss
           asymmetry 0
         = Inr (Scalar (shunt frequency resonance_frequency internal_loss coupling_loss
                          asymmetry))"
  using rf
  by (simp add: shunt_nonlinear_def shunt_def fdiv_def Let_def kerr_detuning_scalar
      kerr_point_zero_drive[OF cl il nd])

section \<open>The parameter guesser\<close>

lemma scan_min:
  assumes "length ys = i" "best_i < i" "ys ! best_i = best" "best = Min (set ys)"
    and "\<forall>j<best_i. best < ys ! j"
  shows "scan (<) xs i best_i best < i + length xs
       \<and> (ys @ xs) ! scan (<) xs i best_i best = Min (set (ys @ xs))
       \<and> (\<forall>j<scan (<) xs i best_i best.
             (ys @ xs) ! scan (<) xs i best_i best < (ys @ xs) ! j)"
  using assms
proof (induction xs arbitrary: ys i best_i best)
  case Nil
  then show ?case by simp
next
  case (Cons x xs)
  have ne: "ys \<noteq> []" using Cons.prems by auto
  have e: "set (ys @ [x]) = insert x (set ys)" by simp
  have mi: "Min (set (ys @ [x])) = min x best"
  proof -
    have "Min (set (ys @ [x])) = min x (Min (set ys))"
      unfolding e by (rule Min_insert) (simp_all add: ne)
    then show ?thesis using Cons.prems(4) by (simp only:)
  qed
  have lower: "\<forall>j<i. best \<le> ys ! j"
  proof (intro allI impI)
    fix j assume "j < i"
    then have "ys ! j \<in> set ys" using Cons.prems(1) by simp
    then have "Min (set ys) \<le> ys ! j" by (intro Min_le) simp_all
    then show "best \<le> ys ! j" using Cons.prems(4) by simp
  qed
  show ?case
  proof (cases "x < best")
    case True
    have m: "x = Min (set (ys @ [x]))" unfolding mi using True by simp
    have f: "\<forall>j<i. x < (ys @ [x]) ! j"
    proof (intro allI impI)
      fix j assume j: "j < i"
      then have "best \<le> ys ! j" using lower by simp
      then show "x < (ys @ [x]) ! j" using True j Cons.prems(1) by (simp add: nth_append)
    qed
    have "scan (<) xs (Suc i) i x < Suc i + length xs
       \<and> ((ys @ [x]) @ xs) ! scan (<) xs (Suc i) i x = Min (set ((ys @ [x]) @ xs))
       \<and> (\<forall>j<scan (<) xs (Suc i) i x.
             ((ys @ [x]) @ xs) ! scan (<) xs (Suc i) i x < ((ys @ [x]) @ xs) ! j)"
      using Cons.prems(1) by (intro Cons.IH m f) (simp_all add: nth_append)
    note ih = this
    have sc: "scan (<) (x # xs) i best_i best = scan (<) xs (Suc i) i x"
      using True by simp
    have ap: "(ys @ [x]) @ xs = ys @ x # xs" by simp
    have ln: "Suc i + length xs = i + length (x # xs)" by simp
    show ?thesis unfolding sc using ih unfolding ap ln by blast
  next
    case False
    have m: "best = Min (set (ys @ [x]))" unfolding mi using False by simp
    have f: "\<forall>j<best_i. best < (ys @ [x]) ! j"
      using Cons.prems(1,2,5) by (simp add: nth_append)
    have "scan (<) xs (Suc i) best_i best < Suc i + length xs
       \<and> ((ys @ [x]) @ xs) ! scan (<) xs (Suc i) best_i best = Min (set ((ys @ [x]) @ xs))
       \<and> (\<forall>j<scan (<) xs (Suc i) best_i best.
             ((ys @ [x]) @ xs) ! scan (<) xs (Suc i) best_i best < ((ys @ [x]) @ xs) ! j)"
      using Cons.prems(1,2,3) by (intro Cons.IH m f) (simp_all add: nth_append)
    note ih = this
    have sc: "scan (<) (x # xs) i best_i best = scan (<) xs (Suc i) best_i best"
      using False by simp
    have ap: "(ys @ [x]) @ xs = ys @ x # xs" by simp
    have ln: "Suc i + length xs = i + length (x # xs)" by simp
    show ?thesis unfolding sc using ih unfolding ap ln by blast
  qed
qed

lemma scan_bound:
  "best_i < i \<Longrightarrow> scan better xs i best_i best < i + length xs"
proof (induction xs arbitrary: i best_i best)
  case Nil
  then show ?case by simp
next
  case (Cons x xs)
  have "scan better xs (Suc i) i x < Suc i + length xs"
    by (rule Cons.IH) simp
  moreover have "scan better xs (Suc i) best_i best < Suc i + length xs"
    using Cons.prems by (intro Cons.IH) simp
  ultimately show ?case by simp
qed

lemma np_argmin_min:
  assumes "xs \<noteq> []"
  shows "\<exists>k. np_argmin xs = Inr k \<and> k < length xs \<and> xs ! k = Min (set xs)
           \<and> (\<forall>j<k. xs ! k < xs ! j)"
proof -
  obtain x xs' where xs: "xs = x # xs'" using assms by (cases xs) auto
  have "\<forall>j<0::nat. [x] ! 0 < [x] ! j" by simp
  from scan_min[of "[x]" 1 0 x xs'] show ?thesis
    by (simp add: xs np_argmin_def)
qed

lemma np_argmax_returns:
  assumes "xs \<noteq> []"
  shows "\<exists>k. np_argmax xs = Inr k \<and> k < length xs"
proof -
  obtain x xs' where xs: "xs = x # xs'" using assms by (cases xs) auto
  from scan_bound[of 0 1 "(>)" xs' x] show ?thesis
    by (simp add: xs np_argmax_def)
qed

lemma length_linspace: "length (linspace a b n) = n"
  by (simp add: linspace_def)

lemma length_convolve_full: "length (convolve_full a v) = length a + length v - 1"
  by (simp add: convolve_full_def)

lemma convolve_same_returns:
  assumes "a \<noteq> []" "v \<noteq> []"
  shows "\<exists>r. convolve_same a v = Inr r \<and> length r = max (length a) (length v)"
proof -
  have p: "0 < length a" "0 < length v" using assms by simp_all
  have "max (length a) (length v)
      \<le> length a + length v - 1 - (min (length a) (length v) - 1) div 2"
    using p by arith
  then show ?thesis using assms
    by (simp add: convolve_same_def length_convolve_full)
qed

lemma linewidth_estimate_returns:
  assumes n: "10 \<le> length frequency" and d: "length data = length frequency"
  shows "\<exists>linewidth. linewidth_estimate frequency data = Inr linewidth"
proof -
  let ?n = "length frequency"
  let ?w = "?n div 10"
  let ?g0 = "map (\<lambda>t. exp (- (t ^ 2))) (linspace (- 4) 4 ?w)"
  let ?g = "map (\<lambda>g. g / sum_list ?g0) ?g0"
  have w: "1 \<le> ?w" using n by simp
  have w2: "2 * ?w < ?n" using n by linarith
  have g: "?g \<noteq> []" using w by (simp add: linspace_def)
  have lg: "length ?g = ?w" by (simp add: length_linspace)
  have a: "map cmod data \<noteq> []" using n d by auto
  obtain smoothed where s: "convolve_same ?g (map cmod data) = Inr smoothed"
    and ls: "length smoothed = max (length ?g) (length (map cmod data))"
    using convolve_same_returns[OF g a] by blast
  have ls': "length smoothed = ?n" using ls lg d by (simp add: max_def)
  then have sne: "smoothed \<noteq> []" using n by auto
  obtain derivative where dv: "convolve_same [1, - 1] smoothed = Inr derivative"
    and ld: "length derivative = max (length [1, - 1 :: real]) (length smoothed)"
    using convolve_same_returns[of "[1, - 1]" smoothed] sne by blast
  have ld': "length derivative = ?n" using ld ls' n by (simp add: max_def)
  let ?win = "take (length derivative - 2 * ?w) (drop ?w derivative)"
  have lw: "length ?win = ?n - 2 * ?w" using ld' w2 by simp
  then have wne: "?win \<noteq> []" using w2 by auto
  obtain imax where imax: "np_argmax ?win = Inr imax" "imax < length ?win"
    using np_argmax_returns[OF wne] by blast
  obtain imin where imin: "np_argmin ?win = Inr imin" "imin < length ?win"
    using np_argmin_min[OF wne] by blast
  have "imax < ?n" using imax(2) unfolding lw by linarith
  moreover have "imin < ?n" using imin(2) unfolding lw by linarith
  ultimately show ?thesis
    using w s dv imax(1) imin(1)
    by (simp add: linewidth_estimate_def Let_def getitem_def)
qed

lemma gaussian_one:
  "map (\<lambda>g. g / sum_list (map (\<lambda>t. exp (- (t ^ 2))) (linspace (- 4) 4 1)))
     (map (\<lambda>t. exp (- (t ^ 2))) (linspace (- 4) 4 1)) = [1::real]"
  by (simp add: linspace_def)

lemma upt_10: "[0..<10] = [0, 1, 2, 3, 4, 5, 6, 7, 8, 9]"
  by (simp add: upt_rec)

lemma upt_11: "[0..<11] = [0, 1, 2, 3, 4, 5, 6, 7, 8, 9, 10]"
  by (simp add: upt_rec)

lemma smoothed_dip:
  "convolve_same [1] [a, a, a, a, v, a, a, a, a, a] = Inr [a, a, a, a, v, a, a, a, a, a]"
  by (simp add: convolve_same_def convolve_full_def upt_10)

lemma derivative_dip:
  "convolve_same [1, - 1] [a, a, a, a, v, a, a, a, a, a]
     = Inr [a, 0, 0, 0, v - a, a - v, 0, 0, 0, 0]"
  by (simp add: convolve_same_def convolve_full_def upt_11 upt_rec[of 0 2] upt_rec[of 1 2])

lemma abs_dip:
  assumes "0 \<le> v" "v < a"
  shows "map cmod [of_real a, of_real a, of_real a, of_real a, of_real v, of_real a, of_real a,
                   of_real a, of_real a, of_real a]
           = [a, a, a, a, v, a, a, a, a, a]"
  using assms by simp

lemma width_ten: "length [1, 2, 3, 4, 5, 6, 7, 8, 9, 10 :: real] div 10 = 1"
  by simp

lemma linewidth_dip:
  assumes "0 \<le> v" "v < a"
  shows "linewidth_estimate [1, 2, 3, 4, 5, 6, 7, 8, 9, 10]
           [of_real a, of_real a, of_real a, of_real a, of_real v, of_real a, of_real a,
            of_real a, of_real a, of_real a] = Inr 1"
  apply (simp only: linewidth_estimate_def Let_def width_ten gaussian_one abs_dip[OF assms]
      smoothed_dip sum.case derivative_dip)
  using assms apply (simp add: np_argmax_def np_argmin_def getitem_def)
  done

lemma resonance_dip:
  assumes "0 \<le> v" "v < a"
  shows "resonance_frequency_guess [1, 2, 3, 4, 5, 6, 7, 8, 9, 10]
           [of_real a, of_real a, of_real a, of_real a, of_real v, of_real a, of_real a,
            of_real a, of_real a, of_real a] = Inr 5"
  apply (simp only: resonance_frequency_guess_def abs_dip[OF assms])
  using assms apply (simp add: np_argmin_def getitem_def)
  done

lemma min_dip:
  assumes "0 \<le> v" "v < a"
  shows "Min (set (map cmod [of_real a, of_real a, of_real a, of_real a, of_real v, of_real a,
                             of_real a, of_real a, of_real a, of_real a])) = v"
  apply (simp only: abs_dip[OF assms])
  using assms apply (simp add: min_def)
  done

lemma guess_smooth_dip:
  assumes "0 \<le> v" "v < a"
  shows "guess_smooth [1, 2, 3, 4, 5, 6, 7, 8, 9, 10]
           [of_real a, of_real a, of_real a, of_real a, of_real v, of_real a, of_real a,
            of_real a, of_real a, of_real a]
         = (let r = xdiv (Fin 1) (xsub (xdiv (Fin 1) (Fin v)) (Fin 1))
            in Inr (5, xdiv (Fin (1 / 5)) (xadd (Fin 1) r),
                    xdiv (xmul (Fin (1 / 5)) r) (xadd (Fin 1) r)))"
  unfolding guess_smooth_def resonance_dip[OF assms] linewidth_dip[OF assms] min_dip[OF assms]
  by (simp add: Let_def)

lemma guess_smooth_zero_minimum:
  "guess_smooth [1, 2, 3, 4, 5, 6, 7, 8, 9, 10] [1, 1, 1, 1, 0, 1, 1, 1, 1, 1]
     = Inr (5, Fin (1 / 5), Fin 0)"
  using guess_smooth_dip[of 0 1] by (simp add: xsub_def)

lemma guess_smooth_unit_minimum:
  "guess_smooth [1, 2, 3, 4, 5, 6, 7, 8, 9, 10] [2, 2, 2, 2, 1, 2, 2, 2, 2, 2]
     = Inr (5, Fin 0, NaN)"
  using guess_smooth_dip[of 1 2] by (simp add: xsub_def)

lemma resonance_ex:
  "resonance_frequency_guess [1, 2, 3, 4, 5, 6, 7, 8, 9, 10] [1, 1, 1, 1, 0, 1, 1, 1, 1, 1]
     = Inr 5"
  using resonance_dip[of 0 1] by simp

lemma linewidth_ex:
  "linewidth_estimate [1, 2, 3, 4, 5, 6, 7, 8, 9, 10] [1, 1, 1, 1, 0, 1, 1, 1, 1, 1] = Inr 1"
  using linewidth_dip[of 0 1] by simp

lemma min_ex: "Min (set (map cmod [1, 1, 1, 1, 0, 1, 1, 1, 1, 1])) = 0"
  using min_dip[of 0 1] by simp

section \<open>The claims\<close>

text \<open>
  Claim C1 (the returned root satisfies the cubic for every physically valid input) does
  not hold of the code. At detuning \<open>- sqrt 3 / 2 * (coupling_loss + internal_loss)\<close> one has
  \<open>delta0 = 0\<close> and \<open>delta1 < 0\<close>, so \<open>delta < 0\<close> and the one-real-root branch runs with
  \<open>cc_one_real = cbrt ((delta1 + sqrt (delta1 ^ 2)) / 2) = 0\<close>; \<open>delta0 / cc_one_real\<close> is
  \<open>0 / 0\<close> and the value returned is \<open>nan\<close>, although the cubic has a real root there.
  Evaluated at coupling_loss = internal_loss = 1/2, KXin = 0, where the root is 0:
\<close>

theorem kerr_detuning_nan_at_valid_input:
  "fst (kerr_detuning (Scalar (- sqrt 3 / 2)) (1 / 2) (1 / 2) 0 chooser) = Inr (Scalar None)
   \<and> cubic (1 / 2) (1 / 2) 0 (- sqrt 3 / 2) 0 = 0"
  using kerr_point_defect[of chooser] by (simp add: kerr_detuning_scalar cubic_def d_at_def)

text \<open>
  Claim C2 (with KXin = 0 the nonlinear model equals the linear one) fails at the same
  point, for the same reason: the Kerr detuning comes back as \<open>nan\<close>, and so does the
  nonlinear model, where the linear model has a value.
\<close>

theorem shunt_nonlinear_differs_at_zero_drive:
  "shunt_nonlinear chooser (1 - sqrt 3 / 2) 1 (1 / 2) (1 / 2) 0 0 = Inr (Scalar None)
   \<and> (\<exists>v. shunt (1 - sqrt 3 / 2) 1 (1 / 2) (1 / 2) 0 = Some v)"
proof -
  have "(1 - sqrt 3 / 2) - 1 = - sqrt 3 / 2" by simp
  then have "shunt_nonlinear chooser (1 - sqrt 3 / 2) 1 (1 / 2) (1 / 2) 0 0 = Inr (Scalar None)"
    using kerr_point_defect[of chooser]
    by (simp add: shunt_nonlinear_def fdiv_def Let_def kerr_detuning_scalar)
  moreover have "\<exists>v. shunt (1 - sqrt 3 / 2) 1 (1 / 2) (1 / 2) 0 = Some v"
    by (subst shunt_value) simp_all
  ultimately show ?thesis by blast
qed

text \<open>
  Claim C3. \<open>kerr_detuning_at_bifurcation\<close> is
  \<open>3 ** (-3/2) * (internal_loss + coupling_loss) ** 3 / coupling_loss\<close>, and for losses in
  (0, 1), with KXin at this threshold, there is a detuning at which the discriminant
  \<open>delta\<close> computed by \<open>kerr_detuning\<close> is exactly 0 (it is
  \<open>sqrt 3 / 2 * (coupling_loss + internal_loss)\<close>).
\<close>

theorem bifurcation_threshold:
  assumes "0 < coupling_loss" "coupling_loss < 1" "0 < internal_loss" "internal_loss < 1"
  shows "kerr_detuning_at_bifurcation coupling_loss internal_loss
           = Some (3 powr (- 3 / 2) * (internal_loss + coupling_loss) ^ 3 / coupling_loss)
         \<and> (\<exists>detuning.
               delta_at coupling_loss internal_loss
                 (3 powr (- 3 / 2) * (internal_loss + coupling_loss) ^ 3 / coupling_loss)
                 detuning = 0)"
proof -
  let ?k = "coupling_loss + internal_loss"
  have cl: "coupling_loss \<noteq> 0" using assms by simp
  have e: "3 powr (- 3 / 2) * (internal_loss + coupling_loss) ^ 3 / coupling_loss
      = ?k ^ 3 / (3 * sqrt 3) / coupling_loss"
    unfolding three_powr by (simp add: add.commute)
  have "delta_at coupling_loss internal_loss (?k ^ 3 / (3 * sqrt 3) / coupling_loss)
          (sqrt 3 / 2 * ?k) = 0"
    unfolding delta_at_def bifurcation_point[OF cl refl] by simp
  then show ?thesis
    unfolding e[symmetric] using cl by (auto simp: kerr_detuning_at_bifurcation_def fdiv_def)
qed

theorem bifurcation_threshold_witness:
  "(0::real) < 1 / 100 \<and> (1 / 100 :: real) < 1 \<and> (0::real) < 1 / 1000 \<and> (1 / 1000 :: real) < 1
   \<and> kerr_detuning_at_bifurcation (1 / 100) (1 / 1000)
        = Some (3 powr (- 3 / 2) * (1 / 1000 + 1 / 100) ^ 3 / (1 / 100))
   \<and> (\<exists>detuning.
         delta_at (1 / 100) (1 / 1000) (3 powr (- 3 / 2) * (1 / 1000 + 1 / 100) ^ 3 / (1 / 100))
           detuning = 0)"
  using bifurcation_threshold [of "1 / 100" "1 / 1000"] by simp

text \<open>
  Claim C4. For a positive resonance frequency and positive losses the linear shunt model
  has a (finite) value, and \<open>ShuntFitter.invert\<close>, with the same coupling loss and
  asymmetry, maps that value back to the detuning \<open>frequency / resonance_frequency - 1\<close>
  and the internal loss. In exact arithmetic the recovery is exact.
\<close>

theorem invert_shunt_roundtrip:
  assumes "resonance_frequency > 0" "internal_loss > 0" "coupling_loss > 0"
  shows "\<exists>s. shunt frequency resonance_frequency internal_loss coupling_loss asymmetry = Some s
           \<and> ShuntFitter_invert coupling_loss asymmetry s
               = Some (frequency / resonance_frequency - 1, internal_loss)"
proof -
  let ?x = "frequency / resonance_frequency - 1"
  let ?den = "1 + (of_real internal_loss + 2 * \<i> * of_real ?x) / of_real coupling_loss :: complex"
  let ?num = "1 + \<i> * of_real asymmetry :: complex"
  have "Re ?den = 1 + internal_loss / coupling_loss" by simp
  also have "\<dots> > 0" using assms by (simp add: add_pos_pos)
  finally have den: "?den \<noteq> 0" by (rule Re_pos_nz)
  have "0 < Re ?num" by simp
  then have num: "?num \<noteq> 0" by (rule Re_pos_nz)
  have s: "shunt frequency resonance_frequency internal_loss coupling_loss asymmetry
      = Some (1 - ?num / ?den)"
    using assms by (intro shunt_value) simp_all
  have nz: "1 - (1 - ?num / ?den) \<noteq> 0" using num den by simp
  have q: "?num / (1 - (1 - ?num / ?den)) = ?den" using num den by (simp add: field_simps)
  have z: "of_real coupling_loss * (?den - 1) = of_real internal_loss + 2 * \<i> * of_real ?x"
    using assms by (simp add: field_simps)
  have "ShuntFitter_invert coupling_loss asymmetry (1 - ?num / ?den) = Some (?x, internal_loss)"
    unfolding ShuntFitter_invert_def fdiv_def using nz
    by (simp only: if_False bind.bind_lunit Let_def q z) simp
  with s show ?thesis by blast
qed

theorem invert_shunt_roundtrip_witness:
  "(0::real) < 5 \<and> (0::real) < 1 / 1000 \<and> (0::real) < 1 / 100 \<and>
   (\<exists>s. shunt 6 5 (1 / 1000) (1 / 100) (1 / 2) = Some s
        \<and> ShuntFitter_invert (1 / 100) (1 / 2) s = Some (6 / 5 - 1, 1 / 1000))"
  using invert_shunt_roundtrip [of 5 "1 / 1000" "1 / 100" 6 "1 / 2"] by simp

text \<open>
  Claim C5. At every point of a one-dimensional input that reaches the repeated-root case
  (\<open>delta = 0\<close>, \<open>delta0 \<noteq> 0\<close>) or the case of three distinct real roots (\<open>delta > 0\<close>),
  \<open>kerr_detuning\<close> with \<open>np.min\<close> and with \<open>np.max\<close> returns two real roots of the
  cubic, the first strictly below the second.
\<close>

theorem choose_min_max_roots:
  assumes "i < length xs"
    and "(delta_at coupling_loss internal_loss KXin (xs ! i) = 0
              \<and> delta0_at coupling_loss internal_loss (xs ! i) \<noteq> 0)
           \<or> 0 < delta_at coupling_loss internal_loss KXin (xs ! i)"
  shows "\<exists>rs_min rs_max rmin rmax.
           fst (kerr_detuning (NdArray [length xs] xs) coupling_loss internal_loss KXin np_min)
             = Inr (NdArray [length xs] rs_min)
         \<and> fst (kerr_detuning (NdArray [length xs] xs) coupling_loss internal_loss KXin np_max)
             = Inr (NdArray [length xs] rs_max)
         \<and> length rs_min = length xs \<and> length rs_max = length xs
         \<and> rs_min ! i = Some rmin \<and> rs_max ! i = Some rmax
         \<and> rmin < rmax
         \<and> cubic coupling_loss internal_loss KXin (xs ! i) rmin = 0
         \<and> cubic coupling_loss internal_loss KXin (xs ! i) rmax = 0"
proof -
  obtain rmin rmax where
    "kerr_point coupling_loss internal_loss KXin np_min (xs ! i) = Some rmin"
    "kerr_point coupling_loss internal_loss KXin np_max (xs ! i) = Some rmax"
    "rmin < rmax"
    "cubic coupling_loss internal_loss KXin (xs ! i) rmin = 0"
    "cubic coupling_loss internal_loss KXin (xs ! i) rmax = 0"
    using kerr_point_min_max[OF assms(2)] by blast
  then show ?thesis
    using assms(1) by (simp add: kerr_detuning_one_dim)
qed

theorem choose_min_max_roots_witness:
  "0 < length [2::real]
   \<and> 0 < delta_at (1 / 2) (1 / 2) 2 ([2] ! 0)
   \<and> (\<exists>rs_min rs_max rmin rmax.
           fst (kerr_detuning (NdArray [length [2::real]] [2]) (1 / 2) (1 / 2) 2 np_min)
             = Inr (NdArray [length [2::real]] rs_min)
         \<and> fst (kerr_detuning (NdArray [length [2::real]] [2]) (1 / 2) (1 / 2) 2 np_max)
             = Inr (NdArray [length [2::real]] rs_max)
         \<and> length rs_min = length [2::real] \<and> length rs_max = length [2::real]
         \<and> rs_min ! 0 = Some rmin \<and> rs_max ! 0 = Some rmax
         \<and> rmin < rmax
         \<and> cubic (1 / 2) (1 / 2) 2 ([2] ! 0) rmin = 0
         \<and> cubic (1 / 2) (1 / 2) 2 ([2] ! 0) rmax = 0)"
proof -
  have l: "0 < length [2::real]" by simp
  have h: "0 < delta_at (1 / 2) (1 / 2) 2 ([2] ! 0)"
    by (simp add: delta_at_def delta0_at_def delta1_at_def b_at_def c_at_def d_at_def
        power2_eq_square power3_eq_cube)
  from l h choose_min_max_roots[OF l disjI2[OF h]] show ?thesis by blast
qed

text \<open>
  Claim C6. With coupling_loss = 0.01, internal_loss = 0.001, resonance_frequency = 5e9 and
  asymmetry = 0, the linear shunt model at frequency = resonance_frequency is
  \<open>1 - coupling_loss / (internal_loss + coupling_loss)\<close>.
\<close>

theorem shunt_on_resonance:
  "shunt 5000000000 5000000000 (1/1000) (1/100) 0
     = Some (of_real (1 - (1/100) / (1/1000 + 1/100)))"
  by (simp add: shunt_def fdiv_def Let_def)

text \<open>
  Claim C7. The shape contract of \<open>kerr_detuning\<close>: a one-dimensional array gives a
  one-dimensional array of the same length whose i-th element is what the point function
  gives at the i-th input; a scalar gives a scalar, the value of the point function; an array
  of shape \<open>()\<close> gives a result of shape \<open>()\<close>.
\<close>

theorem kerr_detuning_shape:
  "fst (kerr_detuning (NdArray [length xs] xs) coupling_loss internal_loss KXin chooser)
     = Inr (NdArray [length xs] (map (kerr_point coupling_loss internal_loss KXin chooser) xs))
   \<and> fst (kerr_detuning (Scalar x) coupling_loss internal_loss KXin chooser)
     = Inr (Scalar (kerr_point coupling_loss internal_loss KXin chooser x))
   \<and> (\<exists>r. fst (kerr_detuning (NdArray [] [x]) coupling_loss internal_loss KXin chooser) = Inr r
          \<and> shape r = shape (NdArray [] [x]))"
  by (simp add: kerr_detuning_scalar kerr_detuning_zero_dim kerr_detuning_one_dim)

text \<open>
  Claim C8 says that \<open>guess_smooth\<close> returns its triple for every input. It does not:
  with fewer than ten points \<open>width\<close> is 0, the Gaussian kernel is empty and
  \<open>np.convolve\<close> raises \<open>ValueError\<close>.
\<close>

theorem guess_smooth_raises_on_short_input:
  "guess_smooth [1, 2, 3] [1, 1, 1] = Inl ValueError"
  by (simp add: guess_smooth_def resonance_frequency_guess_def np_argmin_def getitem_def
      linewidth_estimate_def linspace_def convolve_same_def Let_def)

text \<open>
  Claim C8, amended. For a frequency array of at least ten points and a data array of the
  same length, when the resonance frequency found is not 0, the estimated linewidth is not 0
  and the minimum of \<open>|data|\<close> is not 1, \<open>guess_smooth\<close> returns a triple
  (resonance_frequency, coupling_loss, internal_loss) of finite numbers in which
  resonance_frequency is the frequency at the first index where \<open>|data|\<close> is minimal,
  coupling_loss + internal_loss is the estimated linewidth divided by resonance_frequency, and
  internal_loss / coupling_loss is \<open>1 / (1 / min |data| - 1)\<close>, computed as the code
  computes it (it is 0 when \<open>min |data| = 0\<close>).
\<close>

theorem guess_smooth_triple:
  assumes n: "10 \<le> length frequency" and d: "length data = length frequency"
    and rf0: "resonance_frequency_guess frequency data \<noteq> Inr 0"
    and lw0: "linewidth_estimate frequency data \<noteq> Inr 0"
    and m1: "Min (set (map cmod data)) \<noteq> 1"
  shows "\<exists>k resonance_frequency linewidth coupling_loss internal_loss.
           guess_smooth frequency data
             = Inr (resonance_frequency, Fin coupling_loss, Fin internal_loss)
         \<and> k < length data \<and> cmod (data ! k) = Min (set (map cmod data))
         \<and> (\<forall>j<k. cmod (data ! k) < cmod (data ! j))
         \<and> resonance_frequency = frequency ! k
         \<and> linewidth_estimate frequency data = Inr linewidth
         \<and> xadd (Fin coupling_loss) (Fin internal_loss)
             = xdiv (Fin linewidth) (Fin resonance_frequency)
         \<and> coupling_loss + internal_loss = linewidth / resonance_frequency
         \<and> xdiv (Fin internal_loss) (Fin coupling_loss)
             = xdiv (Fin 1) (xsub (xdiv (Fin 1) (Fin (Min (set (map cmod data))))) (Fin 1))"
proof -
  let ?m = "Min (set (map cmod data))"
  let ?R = "xdiv (Fin 1) (xsub (xdiv (Fin 1) (Fin ?m)) (Fin 1))"
  have ne: "map cmod data \<noteq> []" using n d by auto
  obtain k where k: "np_argmin (map cmod data) = Inr k" "k < length (map cmod data)"
    "map cmod data ! k = ?m" "\<forall>j<k. map cmod data ! k < map cmod data ! j"
    using np_argmin_min[OF ne] by blast
  have kd: "k < length data" using k(2) by simp
  then have km: "cmod (data ! k) = ?m" using k(3) by simp
  have kf: "\<forall>j<k. cmod (data ! k) < cmod (data ! j)"
  proof (intro allI impI)
    fix j assume j: "j < k"
    then have "map cmod data ! k < map cmod data ! j" using k(4) by blast
    then show "cmod (data ! k) < cmod (data ! j)" using j kd by simp
  qed
  have rfg: "resonance_frequency_guess frequency data = Inr (frequency ! k)"
    using k(1) kd d by (simp add: resonance_frequency_guess_def getitem_def)
  with rf0 have rf: "frequency ! k \<noteq> 0" by simp
  obtain lw where lw: "linewidth_estimate frequency data = Inr lw"
    using linewidth_estimate_returns[OF n d] by blast
  with lw0 have lwz: "lw \<noteq> 0" by simp
  define p where "p = lw / frequency ! k"
  have pz: "p \<noteq> 0" using lwz rf by (simp add: p_def)
  have P: "xdiv (Fin lw) (Fin (frequency ! k)) = Fin p" using rf by (simp add: p_def)
  have "\<exists>r. ?R = Fin r \<and> 1 + r \<noteq> 0"
  proof (cases "?m = 0")
    case True
    have "xdiv (Fin 1) (xsub (xdiv (Fin 1) (Fin 0)) (Fin 1)) = Fin 0"
      by (simp add: xsub_def)
    then show ?thesis unfolding True by simp
  next
    case False
    define q where "q = 1 / ?m"
    have qz: "q \<noteq> 0" using False by (simp add: q_def)
    have q1: "q - 1 \<noteq> 0" using False m1 by (simp add: q_def)
    have a: "xdiv (Fin 1) (Fin ?m) = Fin q" using False by (simp add: q_def)
    have b: "xsub (Fin q) (Fin 1) = Fin (q - 1)" by (simp add: xsub_def)
    have c: "xdiv (Fin 1) (Fin (q - 1)) = Fin (1 / (q - 1))" using q1 by simp
    have "1 + 1 / (q - 1) = q / (q - 1)" using q1 by (simp add: field_simps)
    then have "1 + 1 / (q - 1) \<noteq> 0" using qz q1 by simp
    then show ?thesis unfolding a b c by blast
  qed
  then obtain r where R: "?R = Fin r" and r1: "1 + r \<noteq> 0" by blast
  have s1: "xadd (Fin 1) (Fin r) = Fin (1 + r)" by simp
  have x: "xmul (Fin p) (Fin r) = Fin (p * r)" by simp
  have e: "xdiv (Fin p) (Fin (1 + r)) = Fin (p / (1 + r))" using r1 by simp
  have f: "xdiv (Fin (p * r)) (Fin (1 + r)) = Fin (p * r / (1 + r))" using r1 by simp
  have g: "guess_smooth frequency data
      = Inr (frequency ! k, Fin (p / (1 + r)), Fin (p * r / (1 + r)))"
    unfolding guess_smooth_def rfg lw
    by (simp only: sum.case Let_def P R s1 x e f)
  have "p / (1 + r) + p * r / (1 + r) = p * (1 + r) / (1 + r)"
    by (simp add: add_divide_distrib[symmetric] distrib_left)
  then have s: "p / (1 + r) + p * r / (1 + r) = p"
    using r1 by simp
  then have sx: "xadd (Fin (p / (1 + r))) (Fin (p * r / (1 + r)))
      = xdiv (Fin lw) (Fin (frequency ! k))"
    unfolding P by simp
  have cz: "p / (1 + r) \<noteq> 0" using r1 pz by simp
  have "p * r / (1 + r) = r * (p / (1 + r))" by simp
  then have "(p * r / (1 + r)) / (p / (1 + r)) = r * (p / (1 + r)) / (p / (1 + r))"
    by (simp only:)
  also have "\<dots> = r" using cz by (rule nonzero_mult_div_cancel_right)
  finally have t: "(p * r / (1 + r)) / (p / (1 + r)) = r" .
  have tx: "xdiv (Fin (p * r / (1 + r))) (Fin (p / (1 + r))) = ?R"
    unfolding R using cz t by simp
  show ?thesis
    using g kd km kf lw sx s tx unfolding p_def by blast
qed

theorem guess_smooth_triple_witness:
  "(10::nat) \<le> length [1, 2, 3, 4, 5, 6, 7, 8, 9, 10 :: real]
   \<and> resonance_frequency_guess [1, 2, 3, 4, 5, 6, 7, 8, 9, 10]
        [1, 1, 1, 1, 0, 1, 1, 1, 1, 1] \<noteq> Inr 0
   \<and> linewidth_estimate [1, 2, 3, 4, 5, 6, 7, 8, 9, 10]
        [1, 1, 1, 1, 0, 1, 1, 1, 1, 1] \<noteq> Inr 0
   \<and> Min (set (map cmod [1, 1, 1, 1, 0, 1, 1, 1, 1, 1])) \<noteq> 1
   \<and> (\<exists>k resonance_frequency linewidth coupling_loss internal_loss.
           guess_smooth [1, 2, 3, 4, 5, 6, 7, 8, 9, 10] [1, 1, 1, 1, 0, 1, 1, 1, 1, 1]
             = Inr (resonance_frequency, Fin coupling_loss, Fin internal_loss)
         \<and> k < length [1, 1, 1, 1, 0, 1, 1, 1, 1, 1 :: complex]
         \<and> cmod ([1, 1, 1, 1, 0, 1, 1, 1, 1, 1] ! k)
             = Min (set (map cmod [1, 1, 1, 1, 0, 1, 1, 1, 1, 1]))
         \<and> (\<forall>j<k. cmod ([1, 1, 1, 1, 0, 1, 1, 1, 1, 1] ! k)
                      < cmod ([1, 1, 1, 1, 0, 1, 1, 1, 1, 1] ! j))
         \<and> resonance_frequency = [1, 2, 3, 4, 5, 6, 7, 8, 9, 10] ! k
         \<and> linewidth_estimate [1, 2, 3, 4, 5, 6, 7, 8, 9, 10]
              [1, 1, 1, 1, 0, 1, 1, 1, 1, 1] = Inr linewidth
         \<and> xadd (Fin coupling_loss) (Fin internal_loss)
             = xdiv (Fin linewidth) (Fin resonance_frequency)
         \<and> coupling_loss + internal_loss = linewidth / resonance_frequency
         \<and> xdiv (Fin internal_loss) (Fin coupling_loss)
             = xdiv (Fin 1)
                 (xsub (xdiv (Fin 1) (Fin (Min (set (map cmod [1, 1, 1, 1, 0, 1, 1, 1, 1, 1])))))
                    (Fin 1)))"
proof -
  let ?f = "[1, 2, 3, 4, 5, 6, 7, 8, 9, 10 :: real]"
  let ?d = "[1, 1, 1, 1, 0, 1, 1, 1, 1, 1 :: complex]"
  have n: "10 \<le> length ?f" by simp
  have d: "length ?d = length ?f" by simp
  have rf: "resonance_frequency_guess ?f ?d \<noteq> Inr 0" unfolding resonance_ex by simp
  have lw: "linewidth_estimate ?f ?d \<noteq> Inr 0" unfolding linewidth_ex by simp
  have m1: "Min (set (map cmod ?d)) \<noteq> 1" unfolding min_ex by simp
  from guess_smooth_triple[OF n d rf lw m1] n rf lw m1 show ?thesis by blast
qed

text \<open>
  Claim C9 says that \<open>ShuntNonlinearFitter.invert\<close> raises a "not implemented" error. Its
  body is \<open>pass\<close>: called on one data point it returns \<open>None\<close>.
\<close>

theorem nonlinear_invert_one_point:
  "ShuntNonlinearFitter_invert [1] = PyNone
   \<and> ShuntNonlinearFitter_invert [1] \<noteq> Raised ''NotImplementedError''"
  by (simp add: ShuntNonlinearFitter_invert_def)

text \<open>
  Claim C9, amended. For every input \<open>ShuntNonlinearFitter.invert\<close> returns \<open>None\<close>: it
  raises nothing and returns no (detuning, internal_loss) pair.
\<close>

theorem nonlinear_invert_returns_none:
  "ShuntNonlinearFitter_invert scattering_data = PyNone
   \<and> (\<forall>message. ShuntNonlinearFitter_invert scattering_data \<noteq> Raised message)
   \<and> (\<forall>pair. ShuntNonlinearFitter_invert scattering_data \<noteq> Returned pair)"
  by (simp add: ShuntNonlinearFitter_invert_def)

text \<open>
  Claim C10. \<open>kerr_detuning\<close> leaves an array argument of shape \<open>()\<close> with shape
  \<open>(1,)\<close>; a scalar argument and a one-dimensional array argument are unchanged.
\<close>

theorem kerr_detuning_argument_after:
  "snd (kerr_detuning (NdArray [] [x]) coupling_loss internal_loss KXin chooser) = NdArray [1] [x]
   \<and> snd (kerr_detuning (Scalar x) coupling_loss internal_loss KXin chooser) = Scalar x
   \<and> snd (kerr_detuning (NdArray [length xs] xs) coupling_loss internal_loss KXin chooser)
       = NdArray [length xs] xs"
  by (simp add: kerr_detuning_scalar kerr_detuning_zero_dim kerr_detuning_one_dim)

end
